theory Spec2Isabelle
  imports Main "HOL-Library.Monad_Syntax"
begin

section \<open>The GitHub resync pipeline of \<open>routes/githubRoutes.js\<close>\<close>

text \<open>
  The development embeds the \<open>POST /resync\<close> handler of the router and its two helpers
  \<open>fetchAllPages\<close> and \<open>batchInsert\<close> (the router is the second module in
  \<open>src/helpers/githubOAuth.js\<close>; the schema of the integration document is
  \<open>models/githubIntegration.js\<close>). The handler is effectful: it reads the
  integration document, issues HTTP requests, sleeps, writes collections and logs. All of this
  is explicit here: a \<open>world\<close> holds the integration document, the collections of the
  document store and the chronological trace of every effect, and each operation takes the
  world and returns the result together with the new world.

  Modelling decisions, all stated where they are made:
  \<^item> values are JavaScript values as JSON decoding produces them (\<open>jsval\<close>); numbers are
    integers (issue numbers), which is what the program renders into URLs;
  \<^item> the GitHub API is a function from the request (authorisation header and URL) to its
    answer, fixed for the duration of one run;
  \<^item> an exception is a value of type \<open>error\<close>; only the message text of an error is left out;
  \<^item> the trace is the sequence of the effects of the handler itself; the fetches that
    \<open>Promise.all\<close> runs side by side are one entry of the trace, which holds the events of
    each fetch and fixes no order between the fetches;
  \<^item> the read of the integration document may be rejected (the field \<open>unreadable\<close> of the
    world); the writes of the store always answer. The store adds an \<open>_id\<close> to what it
    keeps; documents are compared without it.
\<close>

subsection \<open>JavaScript values\<close>

datatype jsval =
    JUndefined
  | JNull
  | JBool bool
  | JNum int
  | JStr string
  | JArr "jsval list"
  | JObj "(string \<times> jsval) list"

datatype error = FetchError | TypeError | StoreError

text \<open>\<open>if (v)\<close>: the values that count as true.\<close>

fun truthy :: "jsval \<Rightarrow> bool" where
  "truthy JUndefined = False"
| "truthy JNull = False"
| "truthy (JBool b) = b"
| "truthy (JNum n) = (n \<noteq> 0)"
| "truthy (JStr s) = (s \<noteq> [])"
| "truthy (JArr xs) = True"
| "truthy (JObj kvs) = True"

text \<open>
  \<open>v.k\<close> for the property names the handler reads (\<open>login\<close>, \<open>owner\<close>, \<open>name\<close>,
  \<open>full_name\<close>, \<open>number\<close>, \<open>user\<close>, \<open>author\<close>): reading a property of
  \<open>undefined\<close> or \<open>null\<close> throws a TypeError; an object yields the stored value or
  \<open>undefined\<close>; a primitive or an array has none of these properties. An object is the
  list of its properties, and a name that is listed twice has the value listed first.
\<close>

fun getprop :: "jsval \<Rightarrow> string \<Rightarrow> error + jsval" where
  "getprop JUndefined k = Inl TypeError"
| "getprop JNull k = Inl TypeError"
| "getprop (JObj kvs) k = Inr (case map_of kvs k of None \<Rightarrow> JUndefined | Some v \<Rightarrow> v)"
| "getprop v k = Inr JUndefined"

text \<open>Decimal rendering of a number, as a template literal does it.\<close>

definition digit_char :: "nat \<Rightarrow> char" where
  "digit_char d = ''0123456789'' ! d"

fun show_nat :: "nat \<Rightarrow> string" where
  "show_nat n = (if n < 10 then [digit_char n] else show_nat (n div 10) @ [digit_char (n mod 10)])"

declare show_nat.simps [simp del]

definition show_int :: "int \<Rightarrow> string" where
  "show_int i = (if i < 0 then CHR ''-'' # show_nat (nat (- i)) else show_nat (nat i))"

text \<open>\<open>`${v}`\<close>: the string conversion of a template literal.\<close>

fun to_string :: "jsval \<Rightarrow> string" and join_elems :: "jsval list \<Rightarrow> string" where
  "to_string JUndefined = ''undefined''"
| "to_string JNull = ''null''"
| "to_string (JBool b) = (if b then ''true'' else ''false'')"
| "to_string (JNum n) = show_int n"
| "to_string (JStr s) = s"
| "to_string (JArr xs) = join_elems xs"
| "to_string (JObj kvs) = ''[object Object]''"
| "join_elems [] = []"
| "join_elems (JUndefined # xs) = (if xs = [] then [] else CHR '','' # join_elems xs)"
| "join_elems (JNull # xs) = (if xs = [] then [] else CHR '','' # join_elems xs)"
| "join_elems (x # xs) = to_string x @ (if xs = [] then [] else CHR '','' # join_elems xs)"

subsection \<open>The world: integration document, collections, trace of effects\<close>

text \<open>The mongoose schema \<open>githubIntegration\<close>; a field that is not set is \<open>None\<close>.\<close>

record integration_doc =
  accessToken :: "string option"
  tokenType :: "string option"
  scope :: "string option"
  user :: jsval
  connectedAt :: nat

type_synonym headers = string

text \<open>What the handler logs on a completed run.\<close>

record counts =
  orgCount :: nat
  repoCount :: nat
  commitCount :: nat
  pullCount :: nat
  issueCount :: nat
  changelogCount :: nat
  userCount :: nat

datatype event =
    FindOne
  | Get string headers
  | Sleep nat
  | DeleteMany string
  | InsertMany string "jsval list"
  | Log_starting
  | Log_no_data string
  | Warn_cap nat string
  | Warn_timeline string string
  | Warn_details string
  | Log_complete counts
  | Error_resync
  | All_fulfilled "event list list"
  | All_rejected "event list list"

text \<open>
  The last two are the entries of a \<open>Promise.all\<close>: the lists are the events of the fetches
  it runs side by side, each list in its own order (requests, sleeps and cap warnings). The
  trace does not say how the events of different lists follow each other. After
  \<open>All_fulfilled\<close> all of them have happened when the handler goes on. After \<open>All_rejected\<close>
  the handler goes on at the first rejection: the fetches that are still running go on
  requesting, sleeping and warning, and their remaining events happen at some time during or
  after what follows in the trace, the answer of the handler included.
\<close>

text \<open>
  The store: the integration document, whether reading it is rejected (the server only logs a
  failed connection and serves all the same), and the collections.
\<close>

record world =
  integration :: "integration_doc option"
  unreadable :: bool
  colls :: "string \<Rightarrow> jsval list"
  trace :: "event list"

definition emit :: "event list \<Rightarrow> world \<Rightarrow> world" where
  "emit evs w = w\<lparr>trace := trace w @ evs\<rparr>"

text \<open>
  The answer of \<open>axios.get\<close>: the promise is rejected, or it resolves with a body.
  The list endpoints answer with a JSON array; \<open>None\<close> is a body for which \<open>!data\<close> holds.
\<close>

datatype page_result = Rejected | Response "jsval list option"

type_synonym api = "headers \<Rightarrow> string \<Rightarrow> page_result"

subsection \<open>\<open>fetchAllPages\<close>\<close>

definition per_page :: nat where
  "per_page = 100"

definition page_url :: "string \<Rightarrow> nat \<Rightarrow> string" where
  "page_url url page = url @ ''?per_page='' @ show_nat per_page @ ''&page='' @ show_nat page"

text \<open>
  The \<open>while (true)\<close> loop, with the local variables \<open>results\<close> and \<open>page\<close> as arguments.
  It ends: a round that continues has made \<open>results\<close> longer and left it below \<open>maxItems\<close>.
\<close>

function fetchLoop ::
  "api \<Rightarrow> string \<Rightarrow> headers \<Rightarrow> nat \<Rightarrow> nat \<Rightarrow> jsval list \<Rightarrow> nat \<Rightarrow> world
    \<Rightarrow> (error + jsval list) \<times> world" where
  "fetchLoop api url hdrs maxItems delayMs results page w =
     (case api hdrs (page_url url page) of
        Rejected \<Rightarrow> (Inl FetchError, emit [Get (page_url url page) hdrs] w)
      | Response None \<Rightarrow> (Inr results, emit [Get (page_url url page) hdrs] w)
      | Response (Some data) \<Rightarrow>
          if length data = 0 then (Inr results, emit [Get (page_url url page) hdrs] w)
          else if length (results @ data) \<ge> maxItems
            then (Inr (results @ data),
                  emit [Warn_cap maxItems url] (emit [Get (page_url url page) hdrs] w))
          else if length data < per_page
            then (Inr (results @ data), emit [Get (page_url url page) hdrs] w)
          else fetchLoop api url hdrs maxItems delayMs (results @ data) (page + 1)
                 (emit [Sleep delayMs] (emit [Get (page_url url page) hdrs] w)))"
  by pat_completeness auto
termination
  by (relation "measure (\<lambda>(api, url, hdrs, maxItems, delayMs, results, page, w).
        maxItems - length results)") (auto simp: neq_Nil_conv)

declare fetchLoop.simps [simp del]

definition fetchAllPages ::
  "api \<Rightarrow> string \<Rightarrow> headers \<Rightarrow> nat \<Rightarrow> nat \<Rightarrow> world \<Rightarrow> (error + jsval list) \<times> world" where
  "fetchAllPages api url hdrs maxItems delayMs w = fetchLoop api url hdrs maxItems delayMs [] 1 w"

subsection \<open>\<open>batchInsert\<close>\<close>

definition deleteMany :: "string \<Rightarrow> world \<Rightarrow> world" where
  "deleteMany c w = emit [DeleteMany c] (w\<lparr>colls := (colls w)(c := [])\<rparr>)"

definition insertMany :: "string \<Rightarrow> jsval list \<Rightarrow> world \<Rightarrow> world" where
  "insertMany c batch w = emit [InsertMany c batch] (w\<lparr>colls := (colls w)(c := colls w c @ batch)\<rparr>)"

text \<open>
  The \<open>for (let i = 0; i < docs.length; i += batchSize)\<close> loop. With \<open>batchSize = 0\<close> it
  never ends, which is the value \<open>None\<close>.
\<close>

partial_function (option) insertLoop ::
  "string \<Rightarrow> jsval list \<Rightarrow> nat \<Rightarrow> nat \<Rightarrow> world \<Rightarrow> world option" where
  "insertLoop c docs batchSize i w =
     (if i < length docs
      then insertLoop c docs batchSize (i + batchSize)
             (if length (take batchSize (drop i docs)) > 0
              then insertMany c (take batchSize (drop i docs)) w else w)
      else Some w)"

declare insertLoop.simps [code]

text \<open>\<open>docs\<close> is \<open>None\<close> when the argument is absent (\<open>!docs\<close>).\<close>

definition batchInsert ::
  "string \<Rightarrow> jsval list option \<Rightarrow> nat \<Rightarrow> world \<Rightarrow> (nat \<times> world) option" where
  "batchInsert c docs batchSize w =
     (case docs of
        None \<Rightarrow> Some (0, emit [Log_no_data c] w)
      | Some ds \<Rightarrow>
          if length ds = 0 then Some (0, emit [Log_no_data c] w)
          else do {
            w' \<leftarrow> insertLoop c ds batchSize 0 (deleteMany c w);
            Some (length ds, w')
          })"

subsection \<open>The user extractor and the deduplication by login\<close>

text \<open>\<open>arr.map(f)\<close> where \<open>f\<close> may throw: the first exception ends the whole call.\<close>

fun map_throw :: "('a \<Rightarrow> error + 'b) \<Rightarrow> 'a list \<Rightarrow> error + 'b list" where
  "map_throw f [] = Inr []"
| "map_throw f (x # xs) =
     (case f x of
        Inl e \<Rightarrow> Inl e
      | Inr y \<Rightarrow> (case map_throw f xs of Inl e \<Rightarrow> Inl e | Inr ys \<Rightarrow> Inr (y # ys)))"

text \<open>The callback of \<open>extractUsers\<close>: \<open>item.user\<close>, else \<open>item.author\<close>, else \<open>null\<close>.\<close>

definition extractUser :: "jsval \<Rightarrow> error + jsval" where
  "extractUser item =
     (case getprop item ''user'' of
        Inl e \<Rightarrow> Inl e
      | Inr u \<Rightarrow>
          if truthy u then Inr u
          else (case getprop item ''author'' of
                  Inl e \<Rightarrow> Inl e
                | Inr a \<Rightarrow> if truthy a then Inr a else Inr JNull))"

definition extractUsers :: "jsval list \<Rightarrow> error + jsval list" where
  "extractUsers arr =
     (case map_throw extractUser arr of
        Inl e \<Rightarrow> Inl e
      | Inr us \<Rightarrow> Inr (filter (\<lambda>usr. usr \<noteq> JNull) us))"

text \<open>
  Key equality of a JavaScript \<open>Map\<close>: primitives are the same key when they are equal;
  an object or an array is the same key only as the very same reference, and every value
  that JSON decoding creates is a reference of its own, so two such keys never coincide.
\<close>

fun same_value_zero :: "jsval \<Rightarrow> jsval \<Rightarrow> bool" where
  "same_value_zero (JArr xs) b = False"
| "same_value_zero (JObj kvs) b = False"
| "same_value_zero a b = (a = b)"

text \<open>\<open>Map.set\<close>: the entries stay in insertion order; an existing key keeps its place.\<close>

fun map_set :: "jsval \<Rightarrow> jsval \<Rightarrow> (jsval \<times> jsval) list \<Rightarrow> (jsval \<times> jsval) list" where
  "map_set k v [] = [(k, v)]"
| "map_set k v ((k', v') # m) =
     (if same_value_zero k' k then (k', v) # m else (k', v') # map_set k v m)"

text \<open>\<open>for (const user of users) userMap.set(user.login, user)\<close>\<close>

fun userMap :: "jsval list \<Rightarrow> (jsval \<times> jsval) list \<Rightarrow> error + (jsval \<times> jsval) list" where
  "userMap [] m = Inr m"
| "userMap (usr # rest) m =
     (case getprop usr ''login'' of
        Inl e \<Rightarrow> Inl e
      | Inr login \<Rightarrow> userMap rest (map_set login usr m))"

text \<open>\<open>Array.from(userMap.values())\<close>\<close>

definition uniqueUsers :: "jsval list \<Rightarrow> error + jsval list" where
  "uniqueUsers us = (case userMap us [] of Inl e \<Rightarrow> Inl e | Inr m \<Rightarrow> Inr (map snd m))"

subsection \<open>The \<open>/resync\<close> handler\<close>

text \<open>The arrays the handler fills while it walks the repositories.\<close>

record lists =
  commits :: "jsval list"
  pulls :: "jsval list"
  issues :: "jsval list"
  changelogs :: "jsval list"
  users :: "jsval list"

record response =
  status :: nat
  body :: jsval

text \<open>Step 2: the repositories of each organization. Nothing catches a failure here.\<close>

fun reposLoop ::
  "api \<Rightarrow> headers \<Rightarrow> jsval list \<Rightarrow> jsval list \<Rightarrow> world \<Rightarrow> (error + jsval list) \<times> world" where
  "reposLoop api hdrs [] repos w = (Inr repos, w)"
| "reposLoop api hdrs (org # rest) repos w =
     (case getprop org ''login'' of
        Inl e \<Rightarrow> (Inl e, w)
      | Inr login \<Rightarrow>
          (case fetchAllPages api (''https://api.github.com/orgs/'' @ to_string login @ ''/repos'')
                  hdrs 2000 200 w of
             (Inl e, w') \<Rightarrow> (Inl e, w')
           | (Inr orgRepos, w') \<Rightarrow> reposLoop api hdrs rest (repos @ orgRepos) w'))"

text \<open>The \<open>try\<close> part of one round of the timeline loop.\<close>

definition fetchTimeline ::
  "api \<Rightarrow> headers \<Rightarrow> string \<Rightarrow> jsval \<Rightarrow> world \<Rightarrow> (error + jsval list) \<times> world" where
  "fetchTimeline api hdrs baseUrl issue w =
     (case getprop issue ''number'' of
        Inl e \<Rightarrow> (Inl e, w)
      | Inr n \<Rightarrow>
          fetchAllPages api (baseUrl @ ''/issues/'' @ to_string n @ ''/timeline'') hdrs 500 200 w)"

text \<open>
  Its \<open>catch\<close> part builds the warning from \<open>repo.name\<close> and \<open>issue.number\<close>, which
  throws again when the issue is \<open>null\<close>.
\<close>

definition warnTimeline :: "jsval \<Rightarrow> jsval \<Rightarrow> error + event" where
  "warnTimeline repo issue =
     (case getprop repo ''name'' of
        Inl e \<Rightarrow> Inl e
      | Inr nm \<Rightarrow>
          (case getprop issue ''number'' of
             Inl e \<Rightarrow> Inl e
           | Inr n \<Rightarrow> Inr (Warn_timeline (to_string nm) (to_string n))))"

text \<open>
  \<open>for (const issue of repoIssues)\<close>. The first component of the result is the exception
  that left the loop, if any; what was pushed before stays pushed.
\<close>

fun timelineLoop ::
  "api \<Rightarrow> headers \<Rightarrow> string \<Rightarrow> jsval \<Rightarrow> jsval list \<Rightarrow> lists \<Rightarrow> world
    \<Rightarrow> error option \<times> lists \<times> world" where
  "timelineLoop api hdrs baseUrl repo [] ls w = (None, ls, w)"
| "timelineLoop api hdrs baseUrl repo (issue # rest) ls w =
     (case fetchTimeline api hdrs baseUrl issue w of
        (Inr timeline, w') \<Rightarrow>
          timelineLoop api hdrs baseUrl repo rest (ls\<lparr>changelogs := changelogs ls @ timeline\<rparr>) w'
      | (Inl err, w') \<Rightarrow>
          (case warnTimeline repo issue of
             Inl e \<Rightarrow> (Some e, ls, w')
           | Inr warning \<Rightarrow> timelineLoop api hdrs baseUrl repo rest ls (emit [warning] w')))"

text \<open>
  \<open>Promise.all\<close> of the three fetches of one repository. Each fetch is started and runs to
  its own end, with its own events (collected here on an empty trace). When all three are
  fulfilled the handler goes on with the three results. When one is rejected the handler goes
  on with the rejection, at the first one, and the other fetches keep running; which fetch is
  rejected first does not show in the error, all of them being rejected requests. The handler's
  trace gets the one entry for the three fetches.
\<close>

definition fetchDetails ::
  "api \<Rightarrow> headers \<Rightarrow> string \<Rightarrow> world
    \<Rightarrow> (error + jsval list \<times> jsval list \<times> jsval list) \<times> world" where
  "fetchDetails api hdrs baseUrl w =
     (case fetchAllPages api (baseUrl @ ''/commits'') hdrs 2000 200 (w\<lparr>trace := []\<rparr>) of (r1, w1) \<Rightarrow>
      case fetchAllPages api (baseUrl @ ''/pulls'') hdrs 500 200 (w\<lparr>trace := []\<rparr>) of (r2, w2) \<Rightarrow>
      case fetchAllPages api (baseUrl @ ''/issues'') hdrs 500 200 (w\<lparr>trace := []\<rparr>) of (r3, w3) \<Rightarrow>
        (case (r1, r2, r3) of
           (Inr repoCommits, Inr repoPulls, Inr repoIssues) \<Rightarrow>
             (Inr (repoCommits, repoPulls, repoIssues),
              emit [All_fulfilled [trace w1, trace w2, trace w3]] w)
         | _ \<Rightarrow> (Inl FetchError, emit [All_rejected [trace w1, trace w2, trace w3]] w)))"

text \<open>The three \<open>users.push(...extractUsers(_))\<close> statements.\<close>

definition pushUsers ::
  "jsval list \<Rightarrow> jsval list \<Rightarrow> jsval list \<Rightarrow> lists \<Rightarrow> error option \<times> lists" where
  "pushUsers repoCommits repoPulls repoIssues ls =
     (case extractUsers repoCommits of
        Inl e \<Rightarrow> (Some e, ls)
      | Inr u1 \<Rightarrow>
          (case extractUsers repoPulls of
             Inl e \<Rightarrow> (Some e, ls\<lparr>users := users ls @ u1\<rparr>)
           | Inr u2 \<Rightarrow>
               (case extractUsers repoIssues of
                  Inl e \<Rightarrow> (Some e, ls\<lparr>users := users ls @ u1 @ u2\<rparr>)
                | Inr u3 \<Rightarrow> (None, ls\<lparr>users := users ls @ u1 @ u2 @ u3\<rparr>))))"

text \<open>The \<open>baseUrl\<close> of a repository, from \<open>repo.owner.login\<close> and \<open>repo.name\<close>.\<close>

definition repoBaseUrl :: "jsval \<Rightarrow> error + string" where
  "repoBaseUrl repo =
     (case getprop repo ''owner'' of
        Inl e \<Rightarrow> Inl e
      | Inr owner \<Rightarrow>
          (case getprop owner ''login'' of
             Inl e \<Rightarrow> Inl e
           | Inr login \<Rightarrow>
               (case getprop repo ''name'' of
                  Inl e \<Rightarrow> Inl e
                | Inr nm \<Rightarrow>
                    Inr (''https://api.github.com/repos/'' @ to_string login @ ''/'' @ to_string nm))))"

text \<open>The body of the \<open>try\<close> of one repository.\<close>

definition repoTry ::
  "api \<Rightarrow> headers \<Rightarrow> jsval \<Rightarrow> lists \<Rightarrow> world \<Rightarrow> error option \<times> lists \<times> world" where
  "repoTry api hdrs repo ls w =
     (case repoBaseUrl repo of
        Inl e \<Rightarrow> (Some e, ls, w)
      | Inr baseUrl \<Rightarrow>
          (case fetchDetails api hdrs baseUrl w of
             (Inl e, w') \<Rightarrow> (Some e, ls, w')
           | (Inr (repoCommits, repoPulls, repoIssues), w') \<Rightarrow>
               (case timelineLoop api hdrs baseUrl repo repoIssues
                       (ls\<lparr>commits := commits ls @ repoCommits,
                           pulls := pulls ls @ repoPulls,
                           issues := issues ls @ repoIssues\<rparr>) w' of
                  (Some e, ls', w'') \<Rightarrow> (Some e, ls', w'')
                | (None, ls', w'') \<Rightarrow>
                    (case pushUsers repoCommits repoPulls repoIssues ls' of
                       (r, ls'') \<Rightarrow> (r, ls'', w'')))))"

text \<open>
  One round of \<open>for (const repo of repos)\<close>: the \<open>try\<close>, and the \<open>catch\<close> that warns with
  \<open>repo.full_name\<close> (which throws when the repository itself is \<open>null\<close>).
\<close>

definition repoStep ::
  "api \<Rightarrow> headers \<Rightarrow> jsval \<Rightarrow> lists \<Rightarrow> world \<Rightarrow> error option \<times> lists \<times> world" where
  "repoStep api hdrs repo ls w =
     (case repoTry api hdrs repo ls w of
        (None, ls', w') \<Rightarrow> (None, ls', w')
      | (Some err, ls', w') \<Rightarrow>
          (case getprop repo ''full_name'' of
             Inl e \<Rightarrow> (Some e, ls', w')
           | Inr fn \<Rightarrow> (None, ls', emit [Warn_details (to_string fn)] w')))"

fun detailLoop ::
  "api \<Rightarrow> headers \<Rightarrow> jsval list \<Rightarrow> lists \<Rightarrow> world \<Rightarrow> error option \<times> lists \<times> world" where
  "detailLoop api hdrs [] ls w = (None, ls, w)"
| "detailLoop api hdrs (repo # rest) ls w =
     (case repoStep api hdrs repo ls w of
        (Some e, ls', w') \<Rightarrow> (Some e, ls', w')
      | (None, ls', w') \<Rightarrow> detailLoop api hdrs rest ls' w')"

text \<open>Step 4: the five writes and the log of the counts.\<close>

definition writeAll ::
  "nat \<Rightarrow> nat \<Rightarrow> lists \<Rightarrow> jsval list \<Rightarrow> world \<Rightarrow> (counts \<times> world) option" where
  "writeAll orgCnt repoCnt ls uniq w =
     do {
       (commitCnt, w1) \<leftarrow> batchInsert ''github-commits'' (Some (commits ls)) 500 w;
       (pullCnt, w2) \<leftarrow> batchInsert ''github-pulls'' (Some (pulls ls)) 500 w1;
       (issueCnt, w3) \<leftarrow> batchInsert ''github-issues'' (Some (issues ls)) 500 w2;
       (changelogCnt, w4) \<leftarrow> batchInsert ''github-issue-changelogs'' (Some (changelogs ls)) 500 w3;
       (userCnt, w5) \<leftarrow> batchInsert ''github-users'' (Some uniq) 500 w4;
       Some (\<lparr>orgCount = orgCnt, repoCount = repoCnt, commitCount = commitCnt,
               pullCount = pullCnt, issueCount = issueCnt, changelogCount = changelogCnt,
               userCount = userCnt\<rparr>,
             emit [Log_complete \<lparr>orgCount = orgCnt, repoCount = repoCnt, commitCount = commitCnt,
               pullCount = pullCnt, issueCount = issueCnt, changelogCount = changelogCnt,
               userCount = userCnt\<rparr>] w5)
     }"

text \<open>
  Everything after the credential check, up to the log of the counts: the outer \<open>try\<close>.
  \<open>Inl\<close> is an exception that reaches the outer \<open>catch\<close>.
\<close>

definition syncAll :: "api \<Rightarrow> headers \<Rightarrow> world \<Rightarrow> ((error + counts) \<times> world) option" where
  "syncAll api hdrs w =
     (case fetchAllPages api ''https://api.github.com/user/orgs'' hdrs 2000 200 w of
        (Inl e, w1) \<Rightarrow> Some (Inl e, w1)
      | (Inr orgs, w1) \<Rightarrow>
          do {
            (orgCnt, w2) \<leftarrow> batchInsert ''github-organizations'' (Some orgs) 500 w1;
            (case reposLoop api hdrs orgs [] w2 of
               (Inl e, w3) \<Rightarrow> Some (Inl e, w3)
             | (Inr repos, w3) \<Rightarrow>
                 do {
                   (repoCnt, w4) \<leftarrow> batchInsert ''github-repositories'' (Some repos) 500 w3;
                   (case detailLoop api hdrs repos
                           \<lparr>commits = [], pulls = [], issues = [], changelogs = [], users = []\<rparr>
                           w4 of
                      (Some e, ls, w5) \<Rightarrow> Some (Inl e, w5)
                    | (None, ls, w5) \<Rightarrow>
                        (case uniqueUsers (users ls) of
                           Inl e \<Rightarrow> Some (Inl e, w5)
                         | Inr uniq \<Rightarrow>
                             do {
                               (cnts, w6) \<leftarrow> writeAll orgCnt repoCnt ls uniq w5;
                               Some (Inr cnts, w6)
                             }))
                 })
          })"

text \<open>\<open>!integration || !integration.accessToken\<close>\<close>

definition no_credential :: "world \<Rightarrow> bool" where
  "no_credential w =
     (case integration w of
        None \<Rightarrow> True
      | Some i \<Rightarrow> (case accessToken i of None \<Rightarrow> True | Some t \<Rightarrow> t = []))"

definition bearer :: "world \<Rightarrow> headers" where
  "bearer w =
     (case integration w of
        None \<Rightarrow> []
      | Some i \<Rightarrow> (case accessToken i of None \<Rightarrow> [] | Some t \<Rightarrow> ''Bearer '' @ t))"

definition no_integration_response :: response where
  "no_integration_response =
     \<lparr>status = 400, body = JObj [(''error'', JStr ''No active GitHub integration found.'')]\<rparr>"

definition success_response :: response where
  "success_response =
     \<lparr>status = 200,
      body = JObj [(''success'', JBool True),
                   (''message'', JStr ''GitHub data re-synced successfully.'')]\<rparr>"

definition failure_response :: response where
  "failure_response =
     \<lparr>status = 500,
      body = JObj [(''success'', JBool False),
                   (''message'', JStr ''Failed to re-sync GitHub data.'')]\<rparr>"

text \<open>
  \<open>await githubIntegration.findOne()\<close>, the first statement of the outer \<open>try\<close>: the read
  is rejected, or it gives the integration document, if there is one.
\<close>

definition findOne :: "world \<Rightarrow> (error + integration_doc option) \<times> world" where
  "findOne w =
     (if unreadable w then (Inl StoreError, emit [FindOne] w)
      else (Inr (integration w), emit [FindOne] w))"

text \<open>
  The handler: what it answers and the world it leaves. \<open>None\<close>: it never answers. A
  rejected read is an exception in the outer \<open>try\<close> like any other. The tests
  \<open>no_credential\<close> and \<open>bearer\<close> look at the document that the read has given.
\<close>

definition resync :: "api \<Rightarrow> world \<Rightarrow> (response \<times> world) option" where
  "resync api w =
     (case findOne w of
        (Inl e, w0) \<Rightarrow> Some (failure_response, emit [Error_resync] w0)
      | (Inr found, w0) \<Rightarrow>
          if no_credential w0 then Some (no_integration_response, w0)
          else
            (case syncAll api (bearer w0) (emit [Log_starting] w0) of
               None \<Rightarrow> None
             | Some (Inr cnts, w') \<Rightarrow> Some (success_response, w')
             | Some (Inl e, w') \<Rightarrow> Some (failure_response, emit [Error_resync] w')))"

section \<open>Notions used to state the properties\<close>

text \<open>
  The URLs requested by a trace, in the order of the requests; those of the fetches of a
  \<open>Promise.all\<close> fetch after fetch.
\<close>

fun requests :: "event list \<Rightarrow> string list" where
  "requests [] = []"
| "requests (Get u h # es) = u # requests es"
| "requests (All_fulfilled ls # es) = concat (map requests ls) @ requests es"
| "requests (All_rejected ls # es) = concat (map requests ls) @ requests es"
| "requests (e # es) = requests es"

definition full_page_events :: "string \<Rightarrow> headers \<Rightarrow> nat \<Rightarrow> nat list \<Rightarrow> event list" where
  "full_page_events url hdrs delayMs ps =
     concat (map (\<lambda>i. [Get (page_url url i) hdrs, Sleep delayMs]) ps)"

text \<open>
  The consecutive batches of at most \<open>n\<close> records of a list, as the description of the
  writer has them.
\<close>

function consecutive_batches :: "nat \<Rightarrow> 'a list \<Rightarrow> 'a list list" where
  "consecutive_batches n xs =
     (if n = 0 \<or> xs = [] then [] else take n xs # consecutive_batches n (drop n xs))"
  by pat_completeness auto
termination
  by (relation "measure (\<lambda>(n, xs). length xs)") auto

declare consecutive_batches.simps [simp del]

text \<open>The world after one replacing write of a non-empty list.\<close>

definition replaced :: "string \<Rightarrow> jsval list \<Rightarrow> nat \<Rightarrow> world \<Rightarrow> world" where
  "replaced c docs batchSize w =
     w\<lparr>colls := (colls w)(c := docs),
       trace := trace w @ DeleteMany c # map (InsertMany c) (consecutive_batches batchSize docs)\<rparr>"

text \<open>The login of a user record, \<open>undefined\<close> when there is none.\<close>

definition login_of :: "jsval \<Rightarrow> jsval" where
  "login_of usr = (case getprop usr ''login'' of Inl e \<Rightarrow> JUndefined | Inr l \<Rightarrow> l)"

fun is_primitive :: "jsval \<Rightarrow> bool" where
  "is_primitive (JArr xs) = False"
| "is_primitive (JObj kvs) = False"
| "is_primitive v = True"

fun nullish :: "jsval \<Rightarrow> bool" where
  "nullish JUndefined = True"
| "nullish JNull = True"
| "nullish v = False"

text \<open>The entries of \<open>userMap\<close> after all of \<open>us\<close>, when no record of \<open>us\<close> throws.\<close>

definition user_entries :: "jsval list \<Rightarrow> (jsval \<times> jsval) list" where
  "user_entries us = fold (\<lambda>u. map_set (login_of u) u) us []"

text \<open>
  A world with nothing in it, and the events that write to the store (the fetches of a
  \<open>Promise.all\<close> write nothing).
\<close>

definition blank :: world where
  "blank = \<lparr>integration = None, unreadable = False, colls = (\<lambda>c. []), trace = []\<rparr>"

fun is_write :: "event \<Rightarrow> bool" where
  "is_write (DeleteMany c) = True"
| "is_write (InsertMany c b) = True"
| "is_write e = False"

definition writes :: "event list \<Rightarrow> event list" where
  "writes evs = filter is_write evs"

text \<open>
  What \<open>fetchAllPages\<close> returns for a URL and a cap, and the events it leaves; neither
  depends on the world it runs in (\<open>fetchAllPages_factor\<close> below).
\<close>

definition fetched :: "api \<Rightarrow> headers \<Rightarrow> string \<Rightarrow> nat \<Rightarrow> error + jsval list" where
  "fetched api hdrs url maxItems = fst (fetchAllPages api url hdrs maxItems 200 blank)"

definition fetch_events :: "api \<Rightarrow> headers \<Rightarrow> string \<Rightarrow> nat \<Rightarrow> event list" where
  "fetch_events api hdrs url maxItems = trace (snd (fetchAllPages api url hdrs maxItems 200 blank))"

text \<open>
  The same for the other steps of the handler that only fetch: the three fetches of one
  repository, the repositories of the organizations, and the walk over the repositories.
  Each is the result, or the events, of the step in the empty world; the lemmas
  \<open>reposLoop_eq\<close> and \<open>detailLoop_eq\<close> below show that they are the same in every world.
\<close>

definition fetched_details ::
  "api \<Rightarrow> headers \<Rightarrow> string \<Rightarrow> error + jsval list \<times> jsval list \<times> jsval list" where
  "fetched_details api hdrs baseUrl =
     (case (fetched api hdrs (baseUrl @ ''/commits'') 2000,
            fetched api hdrs (baseUrl @ ''/pulls'') 500,
            fetched api hdrs (baseUrl @ ''/issues'') 500) of
        (Inr repoCommits, Inr repoPulls, Inr repoIssues) \<Rightarrow> Inr (repoCommits, repoPulls, repoIssues)
      | _ \<Rightarrow> Inl FetchError)"

definition details_events :: "api \<Rightarrow> headers \<Rightarrow> string \<Rightarrow> event list" where
  "details_events api hdrs baseUrl =
     [(case fetched_details api hdrs baseUrl of
         Inl e \<Rightarrow> All_rejected
       | Inr found \<Rightarrow> All_fulfilled)
        [fetch_events api hdrs (baseUrl @ ''/commits'') 2000,
         fetch_events api hdrs (baseUrl @ ''/pulls'') 500,
         fetch_events api hdrs (baseUrl @ ''/issues'') 500]]"

definition empty_lists :: lists where
  "empty_lists = \<lparr>commits = [], pulls = [], issues = [], changelogs = [], users = []\<rparr>"

definition repos_of :: "api \<Rightarrow> headers \<Rightarrow> jsval list \<Rightarrow> error + jsval list" where
  "repos_of api hdrs orgs = fst (reposLoop api hdrs orgs [] blank)"

definition repos_events :: "api \<Rightarrow> headers \<Rightarrow> jsval list \<Rightarrow> event list" where
  "repos_events api hdrs orgs = trace (snd (reposLoop api hdrs orgs [] blank))"

definition detail_error :: "api \<Rightarrow> headers \<Rightarrow> jsval list \<Rightarrow> error option" where
  "detail_error api hdrs repos = fst (detailLoop api hdrs repos empty_lists blank)"

definition detail_lists :: "api \<Rightarrow> headers \<Rightarrow> jsval list \<Rightarrow> lists" where
  "detail_lists api hdrs repos = fst (snd (detailLoop api hdrs repos empty_lists blank))"

definition detail_events :: "api \<Rightarrow> headers \<Rightarrow> jsval list \<Rightarrow> event list" where
  "detail_events api hdrs repos = trace (snd (snd (detailLoop api hdrs repos empty_lists blank)))"

text \<open>The events and the world of one \<open>batchInsert\<close> with the batch size 500.\<close>

definition written_events :: "string \<Rightarrow> jsval list \<Rightarrow> event list" where
  "written_events c docs =
     (if docs = [] then [Log_no_data c]
      else DeleteMany c # map (InsertMany c) (consecutive_batches 500 docs))"

definition written :: "string \<Rightarrow> jsval list \<Rightarrow> world \<Rightarrow> world" where
  "written c docs w =
     w\<lparr>colls := (if docs = [] then colls w else (colls w)(c := docs)),
       trace := trace w @ written_events c docs\<rparr>"

definition orgs_url :: string where
  "orgs_url = ''https://api.github.com/user/orgs''"

text \<open>The counts the handler logs, and the world after its five last writes.\<close>

definition sync_counts :: "jsval list \<Rightarrow> jsval list \<Rightarrow> lists \<Rightarrow> jsval list \<Rightarrow> counts" where
  "sync_counts orgs repos ls uniq =
     \<lparr>orgCount = length orgs, repoCount = length repos, commitCount = length (commits ls),
      pullCount = length (pulls ls), issueCount = length (issues ls),
      changelogCount = length (changelogs ls), userCount = length uniq\<rparr>"

definition written_lists :: "lists \<Rightarrow> jsval list \<Rightarrow> world \<Rightarrow> world" where
  "written_lists ls uniq w =
     written ''github-users'' uniq
       (written ''github-issue-changelogs'' (changelogs ls)
         (written ''github-issues'' (issues ls)
           (written ''github-pulls'' (pulls ls)
             (written ''github-commits'' (commits ls) w))))"

text \<open>The world when the walk over the repositories is over.\<close>

definition gathered_world :: "api \<Rightarrow> headers \<Rightarrow> jsval list \<Rightarrow> jsval list \<Rightarrow> world \<Rightarrow> world" where
  "gathered_world api hdrs orgs repos w =
     emit (detail_events api hdrs repos)
       (written ''github-repositories'' repos
         (emit (repos_events api hdrs orgs)
           (written ''github-organizations'' orgs
             (emit (fetch_events api hdrs orgs_url 2000) w))))"

text \<open>
  The list endpoints answer with arrays of objects: no element of an array is \<open>null\<close> or
  \<open>undefined\<close>.
\<close>

definition wellformed :: "api \<Rightarrow> headers \<Rightarrow> bool" where
  "wellformed api hdrs \<longleftrightarrow>
     (\<forall>url xs. api hdrs url = Response (Some xs) \<longrightarrow> (\<forall>x \<in> set xs. \<not> nullish x))"

text \<open>
  What one repository adds to the five arrays: nothing when its base URL cannot be built or
  one of its three fetches is rejected; otherwise its commits, pulls and issues, the timelines
  of those of its issues whose timeline fetch is not rejected, and the users of its commits,
  then of its pulls, then of its issues.
\<close>

definition users_in :: "jsval list \<Rightarrow> jsval list" where
  "users_in items = (case extractUsers items of Inl e \<Rightarrow> [] | Inr us \<Rightarrow> us)"

definition timeline_of :: "api \<Rightarrow> headers \<Rightarrow> string \<Rightarrow> jsval \<Rightarrow> jsval list" where
  "timeline_of api hdrs baseUrl issue =
     (case getprop issue ''number'' of
        Inl e \<Rightarrow> []
      | Inr n \<Rightarrow>
          (case fetched api hdrs (baseUrl @ ''/issues/'' @ to_string n @ ''/timeline'') 500 of
             Inl e \<Rightarrow> []
           | Inr timeline \<Rightarrow> timeline))"

definition repo_lists :: "api \<Rightarrow> headers \<Rightarrow> jsval \<Rightarrow> lists" where
  "repo_lists api hdrs repo =
     (case repoBaseUrl repo of
        Inl e \<Rightarrow> empty_lists
      | Inr baseUrl \<Rightarrow>
          (case fetched_details api hdrs baseUrl of
             Inl e \<Rightarrow> empty_lists
           | Inr (repoCommits, repoPulls, repoIssues) \<Rightarrow>
               \<lparr>commits = repoCommits, pulls = repoPulls, issues = repoIssues,
                changelogs = concat (map (timeline_of api hdrs baseUrl) repoIssues),
                users = users_in repoCommits @ users_in repoPulls @ users_in repoIssues\<rparr>))"

text \<open>The five arrays after all repositories: repository after repository.\<close>

definition append_lists :: "lists \<Rightarrow> lists \<Rightarrow> lists" where
  "append_lists a b =
     \<lparr>commits = commits a @ commits b, pulls = pulls a @ pulls b, issues = issues a @ issues b,
      changelogs = changelogs a @ changelogs b, users = users a @ users b\<rparr>"

definition gathered :: "api \<Rightarrow> headers \<Rightarrow> jsval list \<Rightarrow> lists" where
  "gathered api hdrs repos =
     \<lparr>commits = concat (map (commits \<circ> repo_lists api hdrs) repos),
      pulls = concat (map (pulls \<circ> repo_lists api hdrs) repos),
      issues = concat (map (issues \<circ> repo_lists api hdrs) repos),
      changelogs = concat (map (changelogs \<circ> repo_lists api hdrs) repos),
      users = concat (map (users \<circ> repo_lists api hdrs) repos)\<rparr>"

text \<open>
  The number of documents that the events of a trace insert into a collection (the fetches of
  a \<open>Promise.all\<close> insert nothing).
\<close>

fun inserted :: "string \<Rightarrow> event list \<Rightarrow> nat" where
  "inserted c [] = 0"
| "inserted c (InsertMany c' b # es) = (if c' = c then length b else 0) + inserted c es"
| "inserted c (e # es) = inserted c es"

text \<open>
  The world at the end of a run that gets through, and the contents of one collection in
  the outcome of a run.
\<close>

definition final_world :: "api \<Rightarrow> world \<Rightarrow> jsval list \<Rightarrow> jsval list \<Rightarrow> world" where
  "final_world api w orgs repos =
     emit [Log_complete (sync_counts orgs repos (gathered api (bearer w) repos)
                           (map snd (user_entries (users (gathered api (bearer w) repos)))))]
       (written_lists (gathered api (bearer w) repos)
          (map snd (user_entries (users (gathered api (bearer w) repos))))
          (gathered_world api (bearer w) orgs repos (emit [FindOne, Log_starting] w)))"

definition final_collection :: "string \<Rightarrow> (response \<times> world) option \<Rightarrow> jsval list option" where
  "final_collection c res = map_option (\<lambda>(r, w). colls w c) res"

subsection \<open>Concrete inputs\<close>

text \<open>Three user records, two of them with the same login.\<close>

definition example_users :: "jsval list" where
  "example_users =
     [JObj [(''login'', JStr ''alice''), (''id'', JNum 1)],
      JObj [(''login'', JStr ''bob''), (''id'', JNum 2)],
      JObj [(''login'', JStr ''alice''), (''id'', JNum 3)]]"

text \<open>A store in which every collection holds one old document.\<close>

definition example_world :: world where
  "example_world =
     \<lparr>integration = None, unreadable = False, colls = (\<lambda>c. [JStr ''old'']), trace = []\<rparr>"

text \<open>A store whose integration document has lost its access token.\<close>

definition example_tokenless :: world where
  "example_tokenless =
     \<lparr>integration = Some \<lparr>accessToken = None, tokenType = None, scope = None,
                           user = JObj [(''login'', JStr ''alice'')], connectedAt = 0\<rparr>,
      unreadable = False, colls = (\<lambda>c. [JStr ''old'']), trace = []\<rparr>"

text \<open>Two pages of organizations: a full page of 100, then a page of 60.\<close>

definition example_pages_api :: api where
  "example_pages_api hdrs u =
     (if u = ''https://api.github.com/user/orgs?per_page=100&page=1''
        then Response (Some (replicate 100 (JNum 1)))
      else if u = ''https://api.github.com/user/orgs?per_page=100&page=2''
        then Response (Some (replicate 60 (JNum 2)))
      else Rejected)"

definition example_pages :: "nat \<Rightarrow> jsval list" where
  "example_pages i = (if i = 1 then replicate 100 (JNum 1) else replicate 60 (JNum 2))"

text \<open>
  An account with a token, and nothing yet in the store. The organization \<open>acme\<close> has the
  repositories \<open>blog\<close> and \<open>site\<close>. In \<open>example_api\<close> the commits of \<open>blog\<close> cannot be
  fetched, nor can the timeline of issue 7 of \<open>site\<close>.
\<close>

definition example_start :: world where
  "example_start =
     \<lparr>integration = Some \<lparr>accessToken = Some ''t'', tokenType = Some ''bearer'', scope = None,
                           user = JObj [(''login'', JStr ''alice'')], connectedAt = 0\<rparr>,
      unreadable = False, colls = (\<lambda>c. []), trace = []\<rparr>"

text \<open>The same account when the store rejects the read of the integration document.\<close>

definition example_unreadable :: world where
  "example_unreadable = example_start\<lparr>unreadable := True\<rparr>"

definition acme :: jsval where
  "acme = JObj [(''login'', JStr ''acme'')]"

definition site :: jsval where
  "site = JObj [(''name'', JStr ''site''), (''full_name'', JStr ''acme/site''), (''owner'', acme)]"

definition blog :: jsval where
  "blog = JObj [(''name'', JStr ''blog''), (''full_name'', JStr ''acme/blog''), (''owner'', acme)]"

definition person :: "string \<Rightarrow> int \<Rightarrow> jsval" where
  "person l i = JObj [(''login'', JStr l), (''id'', JNum i)]"

definition example_api :: api where
  "example_api hdrs u =
     (if u = ''https://api.github.com/user/orgs?per_page=100&page=1''
        then Response (Some [acme])
      else if u = ''https://api.github.com/orgs/acme/repos?per_page=100&page=1''
        then Response (Some [blog, site])
      else if u = ''https://api.github.com/repos/acme/blog/pulls?per_page=100&page=1''
        then Response (Some [JObj [(''number'', JNum 1), (''user'', person ''dave'' 5)]])
      else if u = ''https://api.github.com/repos/acme/blog/issues?per_page=100&page=1''
        then Response (Some [])
      else if u = ''https://api.github.com/repos/acme/site/commits?per_page=100&page=1''
        then Response (Some [JObj [(''sha'', JStr ''a''), (''author'', person ''alice'' 1)],
                             JObj [(''sha'', JStr ''b''), (''author'', person ''bob'' 2)]])
      else if u = ''https://api.github.com/repos/acme/site/pulls?per_page=100&page=1''
        then Response (Some [JObj [(''number'', JNum 3), (''user'', person ''alice'' 3)]])
      else if u = ''https://api.github.com/repos/acme/site/issues?per_page=100&page=1''
        then Response (Some [JObj [(''number'', JNum 7), (''user'', person ''bob'' 4)],
                             JObj [(''number'', JNum 8), (''user'', person ''carol'' 6)]])
      else if u = ''https://api.github.com/repos/acme/site/issues/8/timeline?per_page=100&page=1''
        then Response (Some [JObj [(''event'', JStr ''labeled'')]])
      else Rejected)"

text \<open>An account without organizations.\<close>

definition no_orgs_api :: api where
  "no_orgs_api hdrs u = Response (Some [])"

text \<open>
  Two repositories and one login: \<open>alice\<close> is the user of a pull of \<open>site\<close>, fetched first,
  and the author of a commit of \<open>blog\<close>, with another record.
\<close>

definition two_repos_api :: api where
  "two_repos_api hdrs u =
     (if u = ''https://api.github.com/user/orgs?per_page=100&page=1''
        then Response (Some [acme])
      else if u = ''https://api.github.com/orgs/acme/repos?per_page=100&page=1''
        then Response (Some [site, blog])
      else if u = ''https://api.github.com/repos/acme/site/commits?per_page=100&page=1''
        then Response (Some [])
      else if u = ''https://api.github.com/repos/acme/site/pulls?per_page=100&page=1''
        then Response (Some [JObj [(''number'', JNum 3), (''user'', person ''alice'' 1)]])
      else if u = ''https://api.github.com/repos/acme/site/issues?per_page=100&page=1''
        then Response (Some [])
      else if u = ''https://api.github.com/repos/acme/blog/commits?per_page=100&page=1''
        then Response (Some [JObj [(''sha'', JStr ''c''), (''author'', person ''alice'' 2)]])
      else if u = ''https://api.github.com/repos/acme/blog/pulls?per_page=100&page=1''
        then Response (Some [])
      else if u = ''https://api.github.com/repos/acme/blog/issues?per_page=100&page=1''
        then Response (Some [])
      else Rejected)"

section \<open>Properties\<close>

subsection \<open>Basic facts about the world\<close>

lemma emit_fields [simp]:
  "integration (emit evs w) = integration w"
  "unreadable (emit evs w) = unreadable w"
  "colls (emit evs w) = colls w"
  "trace (emit evs w) = trace w @ evs"
  by (simp_all add: emit_def)

lemma emit_emit [simp]: "emit evs (emit evs' w) = emit (evs' @ evs) w"
  by (simp add: emit_def)

lemma emit_Nil [simp]: "emit [] w = w"
  by (simp add: emit_def)

lemma credential_emit [simp]:
  "no_credential (emit evs w) = no_credential w" "bearer (emit evs w) = bearer w"
  by (simp_all add: no_credential_def bearer_def)

lemma blank_fields [simp]:
  "trace blank = []" "integration blank = None" "colls blank c = []" "unreadable blank = False"
  by (simp_all add: blank_def)

subsection \<open>The writer\<close>

text \<open>
  C6. Called with an empty or an absent record list, \<open>batchInsert\<close> returns 0 and touches no
  collection: the only effect is the log line, the trace gains neither a delete nor an insert,
  and this holds for every collection name, every earlier state and every batch size
  (zero included, since the loop is not reached).
\<close>

theorem batchInsert_empty_is_noop:
  "batchInsert c None batchSize w = Some (0, emit [Log_no_data c] w) \<and>
   batchInsert c (Some []) batchSize w = Some (0, emit [Log_no_data c] w) \<and>
   colls (emit [Log_no_data c] w) = colls w \<and>
   integration (emit [Log_no_data c] w) = integration w \<and>
   trace (emit [Log_no_data c] w) = trace w @ [Log_no_data c]"
  by (simp add: batchInsert_def)

subsection \<open>Rendering of page numbers\<close>

lemma show_nat_digit: "n < 10 \<Longrightarrow> show_nat n = [digit_char n]"
  by (simp add: show_nat.simps)

lemma page_url_1: "page_url url 1 = url @ ''?per_page=100&page=1''"
  by (simp add: page_url_def per_page_def show_nat.simps digit_char_def)

lemma page_url_Suc_0: "page_url url (Suc 0) = url @ ''?per_page=100&page=1''"
  using page_url_1 [of url] by simp

lemma page_url_2: "page_url url 2 = url @ ''?per_page=100&page=2''"
  by (simp add: page_url_def per_page_def show_nat.simps digit_char_def)

lemma upt_1_3: "[Suc 0..<3] = [Suc 0, 2]"
  by (simp add: upt_rec)

lemma upt_1_2: "[Suc 0..<2] = [Suc 0]"
  by (simp add: upt_rec)

subsection \<open>The paginated fetcher\<close>

lemma requests_append [simp]: "requests (es @ fs) = requests es @ requests fs"
  by (induction es rule: requests.induct) simp_all

lemma requests_full_page_events [simp]:
  "requests (full_page_events url hdrs delayMs ps) = map (page_url url) ps"
  by (induction ps) (simp_all add: full_page_events_def)

lemma full_page_events_Cons:
  "full_page_events url hdrs delayMs (p # ps) =
     Get (page_url url p) hdrs # Sleep delayMs # full_page_events url hdrs delayMs ps"
  by (simp add: full_page_events_def)

lemma fetchLoop_full_pages:
  assumes "\<And>i. p \<le> i \<Longrightarrow> i < p + n \<Longrightarrow>
             api hdrs (page_url url i) = Response (Some (ds i)) \<and> per_page \<le> length (ds i) \<and>
             length (results @ concat (map ds [p..<Suc i])) < maxItems"
  shows "fetchLoop api url hdrs maxItems delayMs results p w =
           fetchLoop api url hdrs maxItems delayMs (results @ concat (map ds [p..<p + n])) (p + n)
             (emit (full_page_events url hdrs delayMs [p..<p + n]) w)"
  using assms
proof (induction n arbitrary: results p w)
  case 0
  then show ?case by (simp add: full_page_events_def)
next
  case (Suc n)
  have here: "api hdrs (page_url url p) = Response (Some (ds p))" "per_page \<le> length (ds p)"
    "length (results @ ds p) < maxItems"
    using Suc.prems [of p] by simp_all
  have ne: "ds p \<noteq> []" using here(2) by (auto simp: per_page_def)
  have step: "fetchLoop api url hdrs maxItems delayMs results p w =
      fetchLoop api url hdrs maxItems delayMs (results @ ds p) (Suc p)
        (emit [Get (page_url url p) hdrs, Sleep delayMs] w)"
    using here ne by (subst fetchLoop.simps) simp
  have rest: "fetchLoop api url hdrs maxItems delayMs (results @ ds p) (Suc p)
        (emit [Get (page_url url p) hdrs, Sleep delayMs] w) =
      fetchLoop api url hdrs maxItems delayMs ((results @ ds p) @ concat (map ds [Suc p..<Suc p + n]))
        (Suc p + n)
        (emit (full_page_events url hdrs delayMs [Suc p..<Suc p + n])
           (emit [Get (page_url url p) hdrs, Sleep delayMs] w))"
  proof (rule Suc.IH)
    fix i assume i: "Suc p \<le> i" "i < Suc p + n"
    then have "[p..<Suc i] = p # [Suc p..<Suc i]"
      by (simp add: upt_conv_Cons)
    with Suc.prems [of i] i
    show "api hdrs (page_url url i) = Response (Some (ds i)) \<and> per_page \<le> length (ds i) \<and>
          length ((results @ ds p) @ concat (map ds [Suc p..<Suc i])) < maxItems"
      by simp
  qed
  have upt: "[p..<p + Suc n] = p # [Suc p..<Suc p + n]"
    by (simp add: upt_conv_Cons)
  show ?case
    unfolding step rest upt by (simp add: full_page_events_Cons)
qed

lemma fetchAllPages_full_pages:
  assumes "\<And>i. 1 \<le> i \<Longrightarrow> i < k \<Longrightarrow>
             api hdrs (page_url url i) = Response (Some (ds i)) \<and> per_page \<le> length (ds i) \<and>
             length (concat (map ds [1..<Suc i])) < maxItems"
    and "1 \<le> k"
  shows "fetchAllPages api url hdrs maxItems delayMs w =
           fetchLoop api url hdrs maxItems delayMs (concat (map ds [1..<k])) k
             (emit (full_page_events url hdrs delayMs [1..<k]) w)"
proof -
  have "fetchLoop api url hdrs maxItems delayMs [] 1 w =
          fetchLoop api url hdrs maxItems delayMs ([] @ concat (map ds [1..<1 + (k - 1)])) (1 + (k - 1))
             (emit (full_page_events url hdrs delayMs [1..<1 + (k - 1)]) w)"
    by (rule fetchLoop_full_pages) (use assms in auto)
  with \<open>1 \<le> k\<close> show ?thesis by (simp add: fetchAllPages_def)
qed

text \<open>
  C3. Let the pages \<open>1 .. k\<close> of a URL be \<open>ds 1 .. ds k\<close>, each page before the
  \<open>k\<close>-th full (at least 100 items) and the count accumulated up to it below \<open>maxItems\<close>,
  and let the count reach \<open>maxItems\<close> with page \<open>k\<close>, where \<open>maxItems \<ge> 1\<close>. Then
  \<open>fetchAllPages\<close> returns all of the pages \<open>1 .. k\<close>, the whole of page \<open>k\<close> included,
  so at least \<open>maxItems\<close> items and never a list cut down to \<open>maxItems\<close>; it warns about
  the cap, and the requests it made are those of the pages \<open>1 .. k\<close> and no other.
\<close>

theorem fetchAllPages_stops_at_cap:
  assumes "1 \<le> maxItems" and "1 \<le> k"
    and "\<And>i. 1 \<le> i \<Longrightarrow> i \<le> k \<Longrightarrow> api hdrs (page_url url i) = Response (Some (ds i))"
    and "\<And>i. 1 \<le> i \<Longrightarrow> i < k \<Longrightarrow>
           per_page \<le> length (ds i) \<and> length (concat (map ds [1..<Suc i])) < maxItems"
    and "maxItems \<le> length (concat (map ds [1..<Suc k]))"
  shows "fetchAllPages api url hdrs maxItems delayMs w =
           (Inr (concat (map ds [1..<Suc k])),
            emit (full_page_events url hdrs delayMs [1..<k] @
                  [Get (page_url url k) hdrs, Warn_cap maxItems url]) w) \<and>
         maxItems \<le> length (concat (map ds [1..<Suc k])) \<and>
         requests (trace (snd (fetchAllPages api url hdrs maxItems delayMs w))) =
           requests (trace w) @ map (page_url url) [1..<Suc k]"
proof -
  have run: "fetchAllPages api url hdrs maxItems delayMs w =
           fetchLoop api url hdrs maxItems delayMs (concat (map ds [1..<k])) k
             (emit (full_page_events url hdrs delayMs [1..<k]) w)"
    by (rule fetchAllPages_full_pages) (use assms in auto)
  have below: "length (concat (map ds [1..<k])) < maxItems"
  proof (cases "k = 1")
    case True
    with assms(1) show ?thesis by simp
  next
    case False
    with assms(2) have "1 \<le> k - 1" "k - 1 < k" "Suc (k - 1) = k" by auto
    with assms(4) [of "k - 1"] show ?thesis by simp
  qed
  have cat: "concat (map ds [1..<Suc k]) = concat (map ds [1..<k]) @ ds k"
    using assms(2) by simp
  have ne: "ds k \<noteq> []"
    using below assms(5) unfolding cat by auto
  have last: "fetchLoop api url hdrs maxItems delayMs (concat (map ds [1..<k])) k
             (emit (full_page_events url hdrs delayMs [1..<k]) w) =
           (Inr (concat (map ds [1..<Suc k])),
            emit (full_page_events url hdrs delayMs [1..<k] @
                  [Get (page_url url k) hdrs, Warn_cap maxItems url]) w)"
    using assms(3) [of k] assms(2) assms(5) ne unfolding cat
    by (subst fetchLoop.simps) simp
  show ?thesis
    unfolding run last using assms(2,5) by simp
qed

theorem fetchAllPages_stops_at_cap_witness:
  "fetchAllPages example_pages_api ''https://api.github.com/user/orgs'' ''Bearer t'' 150 200 blank =
     (Inr (replicate 100 (JNum 1) @ replicate 60 (JNum 2)),
      emit [Get ''https://api.github.com/user/orgs?per_page=100&page=1'' ''Bearer t'', Sleep 200,
            Get ''https://api.github.com/user/orgs?per_page=100&page=2'' ''Bearer t'',
            Warn_cap 150 ''https://api.github.com/user/orgs''] blank) \<and>
   (150::nat) \<le> length (replicate 100 (JNum 1) @ replicate 60 (JNum 2)) \<and>
   requests (trace (snd (fetchAllPages example_pages_api ''https://api.github.com/user/orgs''
                           ''Bearer t'' 150 200 blank))) =
     [''https://api.github.com/user/orgs?per_page=100&page=1'',
      ''https://api.github.com/user/orgs?per_page=100&page=2'']"
proof -
  let ?url = "''https://api.github.com/user/orgs''"
  have pages: "\<And>i. 1 \<le> i \<Longrightarrow> i \<le> 2 \<Longrightarrow>
      example_pages_api ''Bearer t'' (page_url ?url i) = Response (Some (example_pages i))"
  proof -
    fix i :: nat assume "1 \<le> i" "i \<le> 2"
    then have "i = 1 \<or> i = 2" by arith
    then show "example_pages_api ''Bearer t'' (page_url ?url i) = Response (Some (example_pages i))"
      by (auto simp: page_url_Suc_0 page_url_2 example_pages_api_def example_pages_def)
  qed
  have full: "\<And>i. 1 \<le> i \<Longrightarrow> i < 2 \<Longrightarrow>
      per_page \<le> length (example_pages i) \<and> length (concat (map example_pages [1..<Suc i])) < 150"
  proof -
    fix i :: nat assume "1 \<le> i" "i < 2"
    then have "i = 1" by arith
    then show "per_page \<le> length (example_pages i) \<and>
               length (concat (map example_pages [1..<Suc i])) < 150"
      by (simp add: per_page_def example_pages_def)
  qed
  have cap: "150 \<le> length (concat (map example_pages [1..<Suc 2]))"
    by (simp add: upt_1_3 example_pages_def)
  from fetchAllPages_stops_at_cap [of 150 2 example_pages_api "''Bearer t''" ?url example_pages 200 blank,
      OF _ _ pages full cap]
  show ?thesis
    by (simp add: upt_1_3 upt_1_2 example_pages_def full_page_events_def page_url_Suc_0
          page_url_2 blank_def)
qed

text \<open>
  C4. Let the pages before the \<open>k\<close>-th be full and below the cap, and let page \<open>k\<close> be
  short: a body for which \<open>!data\<close> holds, or an array \<open>final\<close> of fewer than 100 items
  (none, possibly). Then \<open>fetchAllPages\<close> returns the pages \<open>1 .. k\<close> concatenated in page
  order, page \<open>k\<close> contributing \<open>final\<close>, requests exactly the pages \<open>1 .. k\<close>, and
  leaves the collections alone.
\<close>

theorem fetchAllPages_stops_at_short_page:
  assumes "1 \<le> k"
    and "\<And>i. 1 \<le> i \<Longrightarrow> i < k \<Longrightarrow>
           api hdrs (page_url url i) = Response (Some (ds i)) \<and> per_page \<le> length (ds i) \<and>
           length (concat (map ds [1..<Suc i])) < maxItems"
    and "api hdrs (page_url url k) = Response None \<and> final = [] \<or>
         api hdrs (page_url url k) = Response (Some final) \<and> length final < per_page"
  shows "fst (fetchAllPages api url hdrs maxItems delayMs w) = Inr (concat (map ds [1..<k]) @ final) \<and>
         requests (trace (snd (fetchAllPages api url hdrs maxItems delayMs w))) =
           requests (trace w) @ map (page_url url) [1..<Suc k] \<and>
         colls (snd (fetchAllPages api url hdrs maxItems delayMs w)) = colls w"
proof -
  have run: "fetchAllPages api url hdrs maxItems delayMs w =
           fetchLoop api url hdrs maxItems delayMs (concat (map ds [1..<k])) k
             (emit (full_page_events url hdrs delayMs [1..<k]) w)"
    by (rule fetchAllPages_full_pages) (use assms in auto)
  from assms(3) show ?thesis
  proof
    assume "api hdrs (page_url url k) = Response None \<and> final = []"
    then show ?thesis
      unfolding run using assms(1) by (subst (1 2 3) fetchLoop.simps) simp
  next
    assume "api hdrs (page_url url k) = Response (Some final) \<and> length final < per_page"
    then show ?thesis
      unfolding run using assms(1) by (subst (1 2 3) fetchLoop.simps) simp
  qed
qed

theorem fetchAllPages_stops_at_short_page_witness:
  "fst (fetchAllPages example_pages_api ''https://api.github.com/user/orgs'' ''Bearer t'' 2000 200 blank) =
     Inr (replicate 100 (JNum 1) @ replicate 60 (JNum 2)) \<and>
   requests (trace (snd (fetchAllPages example_pages_api ''https://api.github.com/user/orgs''
                           ''Bearer t'' 2000 200 blank))) =
     [''https://api.github.com/user/orgs?per_page=100&page=1'',
      ''https://api.github.com/user/orgs?per_page=100&page=2''] \<and>
   colls (snd (fetchAllPages example_pages_api ''https://api.github.com/user/orgs''
                 ''Bearer t'' 2000 200 blank)) = colls blank"
proof -
  let ?url = "''https://api.github.com/user/orgs''"
  have full: "\<And>i. 1 \<le> i \<Longrightarrow> i < 2 \<Longrightarrow>
      example_pages_api ''Bearer t'' (page_url ?url i) = Response (Some (example_pages i)) \<and>
      per_page \<le> length (example_pages i) \<and>
      length (concat (map example_pages [1..<Suc i])) < 2000"
  proof -
    fix i :: nat assume "1 \<le> i" "i < 2"
    then have "i = 1" by arith
    then show "example_pages_api ''Bearer t'' (page_url ?url i) = Response (Some (example_pages i)) \<and>
               per_page \<le> length (example_pages i) \<and>
               length (concat (map example_pages [1..<Suc i])) < 2000"
      by (simp add: per_page_def example_pages_def example_pages_api_def page_url_Suc_0)
  qed
  have short: "example_pages_api ''Bearer t'' (page_url ?url 2) = Response None \<and>
                 replicate 60 (JNum 2) = [] \<or>
               example_pages_api ''Bearer t'' (page_url ?url 2) = Response (Some (replicate 60 (JNum 2))) \<and>
                 length (replicate 60 (JNum 2)) < per_page"
    by (simp add: per_page_def example_pages_api_def page_url_2)
  from fetchAllPages_stops_at_short_page [of 2 example_pages_api "''Bearer t''" ?url example_pages
      2000 "replicate 60 (JNum 2)" 200 blank, OF _ full short]
  show ?thesis
    by (simp add: upt_1_3 upt_1_2 example_pages_def page_url_Suc_0 page_url_2)
qed

subsection \<open>The writer on a non-empty list\<close>

lemma concat_consecutive_batches: "0 < n \<Longrightarrow> concat (consecutive_batches n xs) = xs"
proof (induction n xs rule: consecutive_batches.induct)
  case (1 n xs)
  then show ?case
    by (subst consecutive_batches.simps) auto
qed

lemma consecutive_batches_bound:
  "b \<in> set (consecutive_batches n xs) \<Longrightarrow> b \<noteq> [] \<and> length b \<le> n"
proof (induction n xs rule: consecutive_batches.induct)
  case (1 n xs)
  show ?case
  proof (cases "n = 0 \<or> xs = []")
    case True
    with "1.prems" show ?thesis
      by (subst (asm) consecutive_batches.simps) simp
  next
    case False
    with "1.prems" have "b = take n xs \<or> b \<in> set (consecutive_batches n (drop n xs))"
      by (subst (asm) consecutive_batches.simps) simp
    then show ?thesis
    proof
      assume "b = take n xs"
      with False show ?thesis by simp
    next
      assume "b \<in> set (consecutive_batches n (drop n xs))"
      with "1.IH" False show ?thesis by blast
    qed
  qed
qed

lemma insertLoop_run:
  assumes "0 < batchSize"
  shows "insertLoop c docs batchSize i w =
           Some (w\<lparr>colls := (colls w)(c := colls w c @ drop i docs),
                   trace := trace w @ map (InsertMany c) (consecutive_batches batchSize (drop i docs))\<rparr>)"
proof (induction "length docs - i" arbitrary: i w rule: less_induct)
  case less
  show ?case
  proof (cases "i < length docs")
    case False
    then show ?thesis
      by (subst insertLoop.simps) (simp add: consecutive_batches.simps)
  next
    case True
    let ?batch = "take batchSize (drop i docs)"
    have ne: "?batch \<noteq> []" using True assms by simp
    have less': "length docs - (i + batchSize) < length docs - i"
      using True assms by arith
    have d: "drop (i + batchSize) docs = drop batchSize (drop i docs)"
      by (simp add: add.commute)
    have cb: "consecutive_batches batchSize (drop i docs) =
                ?batch # consecutive_batches batchSize (drop (i + batchSize) docs)"
      using True assms by (subst consecutive_batches.simps) (simp add: d)
    have app: "?batch @ drop (i + batchSize) docs = drop i docs"
      unfolding d by (rule append_take_drop_id)
    show ?thesis
      apply (subst insertLoop.simps)
      using True ne
      apply (simp add: less.hyps [OF less'] cb insertMany_def emit_def)
      apply (simp add: app fun_upd_def)
      done
  qed
qed

lemma batchInsert_run:
  assumes "docs \<noteq> []" "0 < batchSize"
  shows "batchInsert c (Some docs) batchSize w = Some (length docs, replaced c docs batchSize w)"
  using assms by (simp add: batchInsert_def insertLoop_run deleteMany_def emit_def replaced_def)

text \<open>
  C5. For a non-empty list \<open>docs\<close> of \<open>N\<close> records, a collection name \<open>c\<close> and a batch
  size of at least 1, two calls of \<open>batchInsert\<close> in a row both return \<open>N\<close>, and afterwards
  the collection \<open>c\<close> holds exactly \<open>docs\<close>, in input order, so \<open>N\<close> records and not
  \<open>2N\<close>. Each call deletes the whole collection first and then inserts the consecutive
  batches of \<open>docs\<close>, which are non-empty, at most \<open>batchSize\<close> long, and give back \<open>docs\<close>
  when put end to end; no other collection changes.
\<close>

theorem batchInsert_twice_replaces:
  assumes "docs \<noteq> []" and "0 < batchSize"
  shows "batchInsert c (Some docs) batchSize w = Some (length docs, replaced c docs batchSize w) \<and>
         batchInsert c (Some docs) batchSize (replaced c docs batchSize w) =
           Some (length docs, replaced c docs batchSize (replaced c docs batchSize w)) \<and>
         colls (replaced c docs batchSize (replaced c docs batchSize w)) c = docs \<and>
         length (colls (replaced c docs batchSize (replaced c docs batchSize w)) c) = length docs \<and>
         (\<forall>c'. c' \<noteq> c \<longrightarrow>
            colls (replaced c docs batchSize (replaced c docs batchSize w)) c' = colls w c') \<and>
         trace (replaced c docs batchSize (replaced c docs batchSize w)) =
           trace w @ (DeleteMany c # map (InsertMany c) (consecutive_batches batchSize docs)) @
                     (DeleteMany c # map (InsertMany c) (consecutive_batches batchSize docs)) \<and>
         concat (consecutive_batches batchSize docs) = docs \<and>
         (\<forall>b \<in> set (consecutive_batches batchSize docs). b \<noteq> [] \<and> length b \<le> batchSize)"
proof -
  have bound: "\<forall>b \<in> set (consecutive_batches batchSize docs). b \<noteq> [] \<and> length b \<le> batchSize"
    using consecutive_batches_bound by blast
  show ?thesis
    using assms bound
    by (simp add: batchInsert_run concat_consecutive_batches) (simp add: replaced_def)
qed

theorem batchInsert_twice_replaces_witness:
  "(batchInsert ''github-users'' (Some [JNum 1, JNum 2, JNum 3]) 2 example_world \<bind>
      (\<lambda>(n1, w1). batchInsert ''github-users'' (Some [JNum 1, JNum 2, JNum 3]) 2 w1 \<bind>
      (\<lambda>(n2, w2). Some (n1, n2, colls w2 ''github-users'', colls w2 ''github-pulls'', trace w2)))) =
     Some (3, 3, [JNum 1, JNum 2, JNum 3], [JStr ''old''],
           [DeleteMany ''github-users'',
            InsertMany ''github-users'' [JNum 1, JNum 2], InsertMany ''github-users'' [JNum 3],
            DeleteMany ''github-users'',
            InsertMany ''github-users'' [JNum 1, JNum 2], InsertMany ''github-users'' [JNum 3]])"
proof -
  have cb: "consecutive_batches 2 [JNum 1, JNum 2, JNum 3] = [[JNum 1, JNum 2], [JNum 3]]"
    by (simp add: consecutive_batches.simps)
  from batchInsert_twice_replaces [of "[JNum 1, JNum 2, JNum 3]" 2 "''github-users''" example_world]
  show ?thesis
    by (simp add: cb example_world_def)
qed

subsection \<open>Deduplication of the user records\<close>

lemma same_value_zero_eq: "same_value_zero a b \<Longrightarrow> a = b"
  by (cases a) simp_all

lemma same_value_zero_primitive: "is_primitive a \<Longrightarrow> same_value_zero a b = (a = b)"
  by (cases a) simp_all

lemma same_value_zero_sym: "same_value_zero a b = same_value_zero b a"
  by (cases a; cases b) auto

lemma getprop_login: "\<not> nullish u \<Longrightarrow> getprop u ''login'' = Inr (login_of u)"
  by (cases u) (simp_all add: login_of_def)

lemma userMap_fold:
  "\<forall>u \<in> set us. \<not> nullish u \<Longrightarrow>
     userMap us m = Inr (fold (\<lambda>u. map_set (login_of u) u) us m)"
  by (induction us arbitrary: m) (simp_all add: getprop_login)

lemma map_set_keys: "(k', v') \<in> set (map_set k v m) \<Longrightarrow> k' = k \<or> k' \<in> fst ` set m"
  by (induction m) (force split: if_splits)+

lemma map_set_apart:
  "sorted_wrt (\<lambda>a b. \<not> same_value_zero a b) (map fst m) \<Longrightarrow>
   sorted_wrt (\<lambda>a b. \<not> same_value_zero a b) (map fst (map_set k v m))"
proof (induction m)
  case Nil
  then show ?case by simp
next
  case (Cons e m)
  obtain k' v' where e: "e = (k', v')" by (cases e)
  show ?case
  proof (cases "same_value_zero k' k")
    case True
    with Cons.prems e show ?thesis by simp
  next
    case False
    have "\<not> same_value_zero k' (fst x)" if "x \<in> set (map_set k v m)" for x
    proof -
      from that have "fst x = k \<or> fst x \<in> fst ` set m"
        using map_set_keys [of "fst x" "snd x" k v m] by simp
      then show ?thesis
        using Cons.prems e False by auto
    qed
    with Cons e False show ?thesis by simp
  qed
qed

lemma map_set_mem:
  "(k', v') \<in> set (map_set k v m) \<Longrightarrow> (k', v') = (k, v) \<or> (k', v') \<in> set m"
  by (induction m) (auto split: if_splits dest: same_value_zero_eq)

lemma sorted_wrt_neq_distinct: "sorted_wrt (\<lambda>a b. a \<noteq> b) xs \<Longrightarrow> distinct xs"
  by (induction xs) auto

lemma map_set_new: "(k, v) \<in> set (map_set k v m)"
  by (induction m) (auto dest: same_value_zero_eq)

lemma map_set_old:
  "(k', v') \<in> set m \<Longrightarrow>
     (k', v') \<in> set (map_set k v m) \<or> same_value_zero k' k"
  by (induction m) auto

lemma map_set_entries:
  "sorted_wrt (\<lambda>a b. \<not> same_value_zero a b) (map fst m) \<Longrightarrow> (k', v') \<in> set (map_set k v m) \<Longrightarrow>
     (k', v') = (k, v) \<or> ((k', v') \<in> set m \<and> \<not> same_value_zero k' k)"
proof (induction m)
  case Nil
  then show ?case by simp
next
  case (Cons e m)
  obtain k0 v0 where e: "e = (k0, v0)" by (cases e)
  show ?case
  proof (cases "same_value_zero k0 k")
    case True
    then have k0: "k0 = k" by (rule same_value_zero_eq)
    from Cons.prems(2) e True have "(k', v') = (k, v) \<or> (k', v') \<in> set m"
      by (auto simp: k0)
    moreover have "\<not> same_value_zero k' k" if "(k', v') \<in> set m"
    proof -
      from that Cons.prems(1) e have "\<not> same_value_zero k0 k'" by force
      then show ?thesis using k0 same_value_zero_sym by blast
    qed
    ultimately show ?thesis by auto
  next
    case False
    with Cons e show ?thesis by auto
  qed
qed

lemma user_entries_snoc: "user_entries (us @ [u]) = map_set (login_of u) u (user_entries us)"
  by (simp add: user_entries_def)

lemma user_entries_keys: "(k, v) \<in> set (user_entries us) \<Longrightarrow> k = login_of v"
proof (induction us arbitrary: k v rule: rev_induct)
  case Nil
  then show ?case by (simp add: user_entries_def)
next
  case (snoc u us)
  have "(k, v) = (login_of u, u) \<or> (k, v) \<in> set (user_entries us)"
    using snoc.prems unfolding user_entries_snoc by (rule map_set_mem)
  with snoc.IH show ?case by auto
qed

lemma user_entries_apart:
  "sorted_wrt (\<lambda>a b. \<not> same_value_zero a b) (map fst (user_entries us))"
  by (induction us rule: rev_induct) (simp_all add: user_entries_def map_set_apart)

lemma user_entries_last_seen:
  "(k, v) \<in> set (user_entries us) \<Longrightarrow>
     \<exists>xs ys. us = xs @ v # ys \<and> (\<forall>y \<in> set ys. \<not> same_value_zero (login_of y) (login_of v))"
proof (induction us arbitrary: k v rule: rev_induct)
  case Nil
  then show ?case by (simp add: user_entries_def)
next
  case (snoc u us)
  from map_set_entries [OF user_entries_apart snoc.prems [unfolded user_entries_snoc]]
  consider "(k, v) = (login_of u, u)"
    | "(k, v) \<in> set (user_entries us)" "\<not> same_value_zero k (login_of u)"
    by blast
  then show ?case
  proof cases
    case 1
    then have "us @ [u] = us @ v # []" by simp
    then show ?thesis by (metis empty_iff empty_set)
  next
    case 2
    from snoc.IH [OF 2(1)] obtain xs ys where
      us: "us = xs @ v # ys" and later: "\<forall>y \<in> set ys. \<not> same_value_zero (login_of y) (login_of v)"
      by blast
    have k: "k = login_of v" using 2(1) by (rule user_entries_keys)
    have "\<not> same_value_zero (login_of u) (login_of v)"
      using 2(2) k same_value_zero_sym by blast
    with later have "\<forall>y \<in> set (ys @ [u]). \<not> same_value_zero (login_of y) (login_of v)"
      by simp
    moreover have "us @ [u] = xs @ v # (ys @ [u])" using us by simp
    ultimately show ?thesis by blast
  qed
qed

lemma user_entries_covers:
  "u \<in> set us \<Longrightarrow> \<exists>v. (login_of u, v) \<in> set (user_entries us)"
proof (induction us rule: rev_induct)
  case Nil
  then show ?case by simp
next
  case (snoc x us)
  show ?case
  proof (cases "u = x")
    case True
    then show ?thesis unfolding user_entries_snoc using map_set_new by blast
  next
    case False
    with snoc obtain v where v: "(login_of u, v) \<in> set (user_entries us)" by auto
    from map_set_old [OF v, of "login_of x" x]
    show ?thesis
    proof
      assume "(login_of u, v) \<in> set (map_set (login_of x) x (user_entries us))"
      then show ?thesis unfolding user_entries_snoc by blast
    next
      assume "same_value_zero (login_of u) (login_of x)"
      then have "login_of u = login_of x" by (rule same_value_zero_eq)
      then show ?thesis unfolding user_entries_snoc using map_set_new by metis
    qed
  qed
qed

text \<open>
  What the extractor yields is never \<open>null\<close> or \<open>undefined\<close>, so reading the login of an
  extracted record cannot throw.
\<close>

lemma truthy_not_nullish: "truthy v \<Longrightarrow> \<not> nullish v"
  by (cases v) simp_all

lemma map_throw_set:
  "map_throw f xs = Inr ys \<Longrightarrow> y \<in> set ys \<Longrightarrow> \<exists>x \<in> set xs. f x = Inr y"
  by (induction xs arbitrary: ys) (auto split: sum.splits)

lemma extractUser_cases: "extractUser item = Inr u \<Longrightarrow> truthy u \<or> u = JNull"
  by (auto simp: extractUser_def split: sum.splits if_splits)

lemma extractUsers_truthy: "extractUsers arr = Inr us \<Longrightarrow> u \<in> set us \<Longrightarrow> truthy u"
  by (auto simp: extractUsers_def split: sum.splits dest!: map_throw_set dest: extractUser_cases)

text \<open>
  C7. For every sequence \<open>us\<close> of extracted user records (records that are not \<open>null\<close> or
  \<open>undefined\<close>), the deduplication returns a list \<open>out\<close> in which no two records have the
  same login as a key of the map; when the logins are primitive values, strings as GitHub
  has them, the logins of \<open>out\<close> are pairwise distinct. Every record of \<open>out\<close> is a record
  of \<open>us\<close>, taken whole, after which no record of \<open>us\<close> has the same login: it is the last
  one seen. Every login of \<open>us\<close> is the login of a record of \<open>out\<close>.
\<close>

theorem uniqueUsers_one_record_per_login:
  assumes "\<forall>u \<in> set us. \<not> nullish u"
  shows "\<exists>out. uniqueUsers us = Inr out \<and>
           (\<forall>i j. i < j \<longrightarrow> j < length out \<longrightarrow>
                  \<not> same_value_zero (login_of (out ! i)) (login_of (out ! j))) \<and>
           ((\<forall>u \<in> set us. is_primitive (login_of u)) \<longrightarrow> distinct (map login_of out)) \<and>
           (\<forall>v \<in> set out. \<exists>xs ys. us = xs @ v # ys \<and>
                  (\<forall>y \<in> set ys. \<not> same_value_zero (login_of y) (login_of v))) \<and>
           (\<forall>u \<in> set us. \<exists>v \<in> set out. login_of v = login_of u)"
proof -
  let ?out = "map snd (user_entries us)"
  have run: "uniqueUsers us = Inr ?out"
    using assms by (simp add: uniqueUsers_def userMap_fold user_entries_def)
  have keys: "map login_of ?out = map fst (user_entries us)"
    by (auto dest: user_entries_keys)
  have apart: "sorted_wrt (\<lambda>a b. \<not> same_value_zero a b) (map login_of ?out)"
    unfolding keys by (rule user_entries_apart)
  have p1: "\<forall>i j. i < j \<longrightarrow> j < length ?out \<longrightarrow>
                  \<not> same_value_zero (login_of (?out ! i)) (login_of (?out ! j))"
    using apart [unfolded sorted_wrt_iff_nth_less] by (auto simp del: map_map)
  have p3: "\<forall>v \<in> set ?out. \<exists>xs ys. us = xs @ v # ys \<and>
                  (\<forall>y \<in> set ys. \<not> same_value_zero (login_of y) (login_of v))"
    using user_entries_last_seen by fastforce
  have p4: "\<forall>u \<in> set us. \<exists>v \<in> set ?out. login_of v = login_of u"
  proof
    fix u assume "u \<in> set us"
    then obtain v where v: "(login_of u, v) \<in> set (user_entries us)"
      using user_entries_covers by blast
    then have "login_of v = login_of u" using user_entries_keys by metis
    moreover have "v \<in> set ?out" using v by force
    ultimately show "\<exists>v \<in> set ?out. login_of v = login_of u" by blast
  qed
  have p2: "distinct (map login_of ?out)" if prim: "\<forall>u \<in> set us. is_primitive (login_of u)"
  proof -
    have sub: "set ?out \<subseteq> set us" using p3 by auto
    have "sorted_wrt (\<lambda>a b. a \<noteq> b) (map login_of ?out)"
    proof (rule sorted_wrt_mono_rel [OF _ apart])
      fix x y assume x: "x \<in> set (map login_of ?out)" and xy: "\<not> same_value_zero x y"
      from x sub prim have "is_primitive x" by auto
      with xy show "x \<noteq> y" by (simp add: same_value_zero_primitive)
    qed
    then show ?thesis by (rule sorted_wrt_neq_distinct)
  qed
  from run p1 p2 p3 p4 show ?thesis by blast
qed

theorem uniqueUsers_one_record_per_login_witness:
  "uniqueUsers example_users =
     Inr [JObj [(''login'', JStr ''alice''), (''id'', JNum 3)],
          JObj [(''login'', JStr ''bob''), (''id'', JNum 2)]] \<and>
   distinct (map login_of [JObj [(''login'', JStr ''alice''), (''id'', JNum 3)],
                           JObj [(''login'', JStr ''bob''), (''id'', JNum 2)]])"
proof -
  have non_null: "\<forall>u \<in> set example_users. \<not> nullish u"
    by (simp add: example_users_def)
  have prim: "\<forall>u \<in> set example_users. is_primitive (login_of u)"
    by (simp add: example_users_def login_of_def)
  from uniqueUsers_one_record_per_login [OF non_null] prim
  obtain out where out: "uniqueUsers example_users = Inr out" and d: "distinct (map login_of out)"
    by blast
  have run: "uniqueUsers example_users =
     Inr [JObj [(''login'', JStr ''alice''), (''id'', JNum 3)],
          JObj [(''login'', JStr ''bob''), (''id'', JNum 2)]]"
    by (simp add: uniqueUsers_def example_users_def)
  with out d show ?thesis by simp
qed

subsection \<open>The fetcher does not depend on the world\<close>

text \<open>
  A fetch only appends events to the trace: its result and its events are the same in every
  world, it writes nothing, and its first event is the request of page 1.
\<close>

lemma writes_simps [simp]:
  "writes [] = []"
  "writes (evs @ evs') = writes evs @ writes evs'"
  "writes (e # evs) = (if is_write e then e # writes evs else writes evs)"
  by (simp_all add: writes_def)

lemma emit_Cons: "emit (e # evs) w = emit evs (emit [e] w)"
  by simp

lemma fetchLoop_factor:
  fixes w :: world
  shows "\<exists>r evs. writes evs = [] \<and>
     (\<forall>v. fetchLoop api url hdrs maxItems delayMs results page v =
            (r, emit (Get (page_url url page) hdrs # evs) v))"
proof (induction api url hdrs maxItems delayMs results page w rule: fetchLoop.induct)
  case (1 api url hdrs maxItems delayMs results page w)
  show ?case
  proof (cases "api hdrs (page_url url page)")
    case Rejected
    then have "\<forall>v. fetchLoop api url hdrs maxItems delayMs results page v =
            (Inl FetchError, emit (Get (page_url url page) hdrs # []) v)"
      by (subst fetchLoop.simps) simp
    then show ?thesis by (metis writes_simps(1))
  next
    case (Response body)
    show ?thesis
    proof (cases body)
      case None
      with Response have "\<forall>v. fetchLoop api url hdrs maxItems delayMs results page v =
            (Inr results, emit (Get (page_url url page) hdrs # []) v)"
        by (subst fetchLoop.simps) simp
      then show ?thesis by (metis writes_simps(1))
    next
      case (Some data)
      consider (empty) "length data = 0"
        | (cap) "length data \<noteq> 0" "maxItems \<le> length (results @ data)"
        | (short) "length data \<noteq> 0" "\<not> maxItems \<le> length (results @ data)" "length data < per_page"
        | (more) "length data \<noteq> 0" "\<not> maxItems \<le> length (results @ data)" "\<not> length data < per_page"
        by blast
      then show ?thesis
      proof cases
        case empty
        with Response Some have "\<forall>v. fetchLoop api url hdrs maxItems delayMs results page v =
            (Inr results, emit (Get (page_url url page) hdrs # []) v)"
          by (subst fetchLoop.simps) simp
        then show ?thesis by (metis writes_simps(1))
      next
        case cap
        with Response Some have "\<forall>v. fetchLoop api url hdrs maxItems delayMs results page v =
            (Inr (results @ data), emit (Get (page_url url page) hdrs # [Warn_cap maxItems url]) v)"
          by (subst fetchLoop.simps) simp
        moreover have "writes [Warn_cap maxItems url] = []" by simp
        ultimately show ?thesis by blast
      next
        case short
        with Response Some have "\<forall>v. fetchLoop api url hdrs maxItems delayMs results page v =
            (Inr (results @ data), emit (Get (page_url url page) hdrs # []) v)"
          by (subst fetchLoop.simps) simp
        then show ?thesis by (metis writes_simps(1))
      next
        case more
        from "1.IH" [OF Response Some more]
        obtain r evs where evs: "writes evs = []"
          and run: "\<And>v. fetchLoop api url hdrs maxItems delayMs (results @ data) (Suc page) v =
                     (r, emit (Get (page_url url (Suc page)) hdrs # evs) v)"
          by auto
        have "\<forall>v. fetchLoop api url hdrs maxItems delayMs results page v =
               (r, emit (Get (page_url url page) hdrs #
                         (Sleep delayMs # Get (page_url url (Suc page)) hdrs # evs)) v)"
          using Response Some more by (subst fetchLoop.simps) (simp add: run)
        moreover have "writes (Sleep delayMs # Get (page_url url (Suc page)) hdrs # evs) = []"
          using evs by simp
        ultimately show ?thesis by blast
      qed
    qed
  qed
qed

lemma fetchAllPages_factor:
  "fetchAllPages api url hdrs maxItems 200 w =
     (fetched api hdrs url maxItems, emit (fetch_events api hdrs url maxItems) w)"
proof -
  obtain r evs where
    run: "\<And>v. fetchLoop api url hdrs maxItems 200 [] 1 v = (r, emit (Get (page_url url 1) hdrs # evs) v)"
    using fetchLoop_factor by blast
  show ?thesis
    by (simp add: fetched_def fetch_events_def fetchAllPages_def run del: One_nat_def)
qed

lemma fetch_events_no_writes [simp]: "writes (fetch_events api hdrs url maxItems) = []"
proof -
  obtain r evs where evs: "writes evs = []" and
    run: "\<And>v. fetchLoop api url hdrs maxItems 200 [] 1 v = (r, emit (Get (page_url url 1) hdrs # evs) v)"
    using fetchLoop_factor by blast
  show ?thesis
    by (simp add: fetch_events_def fetchAllPages_def run evs del: One_nat_def)
qed

lemma fetch_events_first:
  "\<exists>evs. fetch_events api hdrs url maxItems = Get (page_url url 1) hdrs # evs"
proof -
  obtain r evs where
    run: "\<And>v. fetchLoop api url hdrs maxItems 200 [] 1 v = (r, emit (Get (page_url url 1) hdrs # evs) v)"
    using fetchLoop_factor by blast
  show ?thesis
    by (simp add: fetch_events_def fetchAllPages_def run del: One_nat_def)
qed

subsection \<open>The steps of the handler that only fetch\<close>

lemma fetchTimeline_factor:
  "\<exists>r evs. writes evs = [] \<and> (\<forall>v. fetchTimeline api hdrs baseUrl issue v = (r, emit evs v))"
proof (cases "getprop issue ''number''")
  case (Inl e)
  then have "\<forall>v. fetchTimeline api hdrs baseUrl issue v = (Inl e, emit [] v)"
    by (simp add: fetchTimeline_def)
  then show ?thesis by (metis writes_simps(1))
next
  case (Inr n)
  then have "\<forall>v. fetchTimeline api hdrs baseUrl issue v =
      (fetched api hdrs (baseUrl @ ''/issues/'' @ to_string n @ ''/timeline'') 500,
       emit (fetch_events api hdrs (baseUrl @ ''/issues/'' @ to_string n @ ''/timeline'') 500) v)"
    by (simp add: fetchTimeline_def fetchAllPages_factor)
  then show ?thesis using fetch_events_no_writes by blast
qed

lemma timelineLoop_factor:
  "\<exists>e ls' evs. writes evs = [] \<and>
     (\<forall>v. timelineLoop api hdrs baseUrl repo iss ls v = (e, ls', emit evs v))"
proof (induction iss arbitrary: ls)
  case Nil
  have "\<forall>v. timelineLoop api hdrs baseUrl repo [] ls v = (None, ls, emit [] v)" by simp
  then show ?case by (metis writes_simps(1))
next
  case (Cons issue rest)
  obtain r evs1 where w1: "writes evs1 = []"
    and f: "\<And>v. fetchTimeline api hdrs baseUrl issue v = (r, emit evs1 v)"
    using fetchTimeline_factor by blast
  show ?case
  proof (cases r)
    case (Inr timeline)
    obtain e ls' evs2 where w2: "writes evs2 = []"
      and l: "\<And>v. timelineLoop api hdrs baseUrl repo rest
                 (ls\<lparr>changelogs := changelogs ls @ timeline\<rparr>) v = (e, ls', emit evs2 v)"
      using Cons.IH by blast
    have "\<forall>v. timelineLoop api hdrs baseUrl repo (issue # rest) ls v = (e, ls', emit (evs1 @ evs2) v)"
      using Inr by (simp add: f l)
    moreover have "writes (evs1 @ evs2) = []" using w1 w2 by simp
    ultimately show ?thesis by blast
  next
    case (Inl err)
    show ?thesis
    proof (cases "warnTimeline repo issue")
      case (Inl e)
      have "\<forall>v. timelineLoop api hdrs baseUrl repo (issue # rest) ls v = (Some e, ls, emit evs1 v)"
        using \<open>r = Inl err\<close> Inl by (simp add: f)
      with w1 show ?thesis by blast
    next
      case (Inr warning)
      obtain e ls' evs2 where w2: "writes evs2 = []"
        and l: "\<And>v. timelineLoop api hdrs baseUrl repo rest ls v = (e, ls', emit evs2 v)"
        using Cons.IH by blast
      have ww: "\<not> is_write warning"
        using Inr by (auto simp: warnTimeline_def split: sum.splits)
      have "\<forall>v. timelineLoop api hdrs baseUrl repo (issue # rest) ls v =
               (e, ls', emit (evs1 @ warning # evs2) v)"
        using \<open>r = Inl err\<close> Inr by (simp add: f l)
      moreover have "writes (evs1 @ warning # evs2) = []" using w1 w2 ww by simp
      ultimately show ?thesis by blast
    qed
  qed
qed

lemma fetchDetails_factor:
  "fetchDetails api hdrs baseUrl v =
     (fetched_details api hdrs baseUrl, emit (details_events api hdrs baseUrl) v)"
  by (simp add: fetchDetails_def fetchAllPages_factor fetched_details_def details_events_def
      split: sum.splits)

lemma details_events_no_writes [simp]: "writes (details_events api hdrs baseUrl) = []"
  by (simp add: details_events_def split: sum.splits)

lemma repoTry_factor:
  "\<exists>e ls' evs. writes evs = [] \<and> (\<forall>v. repoTry api hdrs repo ls v = (e, ls', emit evs v))"
proof (cases "repoBaseUrl repo")
  case (Inl e)
  then have "\<forall>v. repoTry api hdrs repo ls v = (Some e, ls, emit [] v)"
    by (simp add: repoTry_def)
  then show ?thesis by (metis writes_simps(1))
next
  case (Inr baseUrl)
  define r where "r = fetched_details api hdrs baseUrl"
  define evs1 where "evs1 = details_events api hdrs baseUrl"
  have w1: "writes evs1 = []" by (simp add: evs1_def)
  have f: "\<And>v. fetchDetails api hdrs baseUrl v = (r, emit evs1 v)"
    by (simp add: r_def evs1_def fetchDetails_factor)
  show ?thesis
  proof (cases r)
    case (Inl e)
    have "\<forall>v. repoTry api hdrs repo ls v = (Some e, ls, emit evs1 v)"
      using Inr Inl by (simp add: repoTry_def f)
    with w1 show ?thesis by blast
  next
    case got: (Inr triple)
    obtain repoCommits repoPulls repoIssues where t: "triple = (repoCommits, repoPulls, repoIssues)"
      by (cases triple)
    obtain e ls' evs2 where w2: "writes evs2 = []"
      and l: "\<And>v. timelineLoop api hdrs baseUrl repo repoIssues
                 (ls\<lparr>commits := commits ls @ repoCommits, pulls := pulls ls @ repoPulls,
                     issues := issues ls @ repoIssues\<rparr>) v = (e, ls', emit evs2 v)"
      using timelineLoop_factor by blast
    obtain e3 ls3 where p: "pushUsers repoCommits repoPulls repoIssues ls' = (e3, ls3)"
      by (cases "pushUsers repoCommits repoPulls repoIssues ls'")
    have "\<exists>e' ls''. \<forall>v. repoTry api hdrs repo ls v = (e', ls'', emit (evs1 @ evs2) v)"
      using Inr got t p by (cases e) (simp_all add: repoTry_def f l)
    moreover have "writes (evs1 @ evs2) = []" using w1 w2 by simp
    ultimately show ?thesis by blast
  qed
qed

lemma repoStep_factor:
  "\<exists>e ls' evs. writes evs = [] \<and> (\<forall>v. repoStep api hdrs repo ls v = (e, ls', emit evs v))"
proof -
  obtain e ls' evs where w: "writes evs = []"
    and t: "\<And>v. repoTry api hdrs repo ls v = (e, ls', emit evs v)"
    using repoTry_factor by blast
  show ?thesis
  proof (cases e)
    case None
    then have "\<forall>v. repoStep api hdrs repo ls v = (None, ls', emit evs v)"
      by (simp add: repoStep_def t)
    with w show ?thesis by blast
  next
    case (Some err)
    show ?thesis
    proof (cases "getprop repo ''full_name''")
      case (Inl e')
      with Some have "\<forall>v. repoStep api hdrs repo ls v = (Some e', ls', emit evs v)"
        by (simp add: repoStep_def t)
      with w show ?thesis by blast
    next
      case (Inr fn)
      with Some have "\<forall>v. repoStep api hdrs repo ls v =
          (None, ls', emit (evs @ [Warn_details (to_string fn)]) v)"
        by (simp add: repoStep_def t)
      moreover have "writes (evs @ [Warn_details (to_string fn)]) = []" using w by simp
      ultimately show ?thesis by blast
    qed
  qed
qed

lemma detailLoop_factor:
  "\<exists>e ls' evs. writes evs = [] \<and> (\<forall>v. detailLoop api hdrs repos ls v = (e, ls', emit evs v))"
proof (induction repos arbitrary: ls)
  case Nil
  have "\<forall>v. detailLoop api hdrs [] ls v = (None, ls, emit [] v)" by simp
  then show ?case by (metis writes_simps(1))
next
  case (Cons repo rest)
  obtain e ls1 evs1 where w1: "writes evs1 = []"
    and s: "\<And>v. repoStep api hdrs repo ls v = (e, ls1, emit evs1 v)"
    using repoStep_factor by blast
  show ?case
  proof (cases e)
    case (Some err)
    then have "\<forall>v. detailLoop api hdrs (repo # rest) ls v = (Some err, ls1, emit evs1 v)"
      by (simp add: s)
    with w1 show ?thesis by blast
  next
    case None
    obtain e2 ls2 evs2 where w2: "writes evs2 = []"
      and l: "\<And>v. detailLoop api hdrs rest ls1 v = (e2, ls2, emit evs2 v)"
      using Cons.IH by blast
    have "\<forall>v. detailLoop api hdrs (repo # rest) ls v = (e2, ls2, emit (evs1 @ evs2) v)"
      using None by (simp add: s l)
    moreover have "writes (evs1 @ evs2) = []" using w1 w2 by simp
    ultimately show ?thesis by blast
  qed
qed

lemma reposLoop_factor:
  "\<exists>r evs. writes evs = [] \<and> (\<forall>v. reposLoop api hdrs orgs repos v = (r, emit evs v))"
proof (induction orgs arbitrary: repos)
  case Nil
  have "\<forall>v. reposLoop api hdrs [] repos v = (Inr repos, emit [] v)" by simp
  then show ?case by (metis writes_simps(1))
next
  case (Cons org rest)
  show ?case
  proof (cases "getprop org ''login''")
    case (Inl e)
    then have "\<forall>v. reposLoop api hdrs (org # rest) repos v = (Inl e, emit [] v)" by simp
    then show ?thesis by (metis writes_simps(1))
  next
    case (Inr login)
    let ?url = "''https://api.github.com/orgs/'' @ to_string login @ ''/repos''"
    show ?thesis
    proof (cases "fetched api hdrs ?url 2000")
      case (Inl e)
      with Inr have "\<forall>v. reposLoop api hdrs (org # rest) repos v =
          (Inl e, emit (fetch_events api hdrs ?url 2000) v)"
        by (simp add: fetchAllPages_factor)
      then show ?thesis using fetch_events_no_writes by blast
    next
      case got: (Inr orgRepos)
      obtain r evs where w: "writes evs = []"
        and l: "\<And>v. reposLoop api hdrs rest (repos @ orgRepos) v = (r, emit evs v)"
        using Cons.IH by blast
      have "\<forall>v. reposLoop api hdrs (org # rest) repos v =
          (r, emit (fetch_events api hdrs ?url 2000 @ evs) v)"
        using Inr got by (simp add: fetchAllPages_factor l)
      moreover have "writes (fetch_events api hdrs ?url 2000 @ evs) = []" using w by simp
      ultimately show ?thesis by blast
    qed
  qed
qed

subsection \<open>The handler, step by step\<close>

lemma reposLoop_eq:
  "reposLoop api hdrs orgs [] w = (repos_of api hdrs orgs, emit (repos_events api hdrs orgs) w)"
proof -
  obtain r evs where "\<And>v. reposLoop api hdrs orgs [] v = (r, emit evs v)"
    using reposLoop_factor by blast
  then show ?thesis by (simp add: repos_of_def repos_events_def)
qed

lemma repos_events_no_writes [simp]: "writes (repos_events api hdrs orgs) = []"
proof -
  obtain r evs where "writes evs = []" "\<And>v. reposLoop api hdrs orgs [] v = (r, emit evs v)"
    using reposLoop_factor by blast
  then show ?thesis by (simp add: repos_events_def)
qed

lemma detailLoop_eq:
  "detailLoop api hdrs repos empty_lists w =
     (detail_error api hdrs repos, detail_lists api hdrs repos, emit (detail_events api hdrs repos) w)"
proof -
  obtain e ls evs where "\<And>v. detailLoop api hdrs repos empty_lists v = (e, ls, emit evs v)"
    using detailLoop_factor by blast
  then show ?thesis by (simp add: detail_error_def detail_lists_def detail_events_def)
qed

lemma detail_events_no_writes [simp]: "writes (detail_events api hdrs repos) = []"
proof -
  obtain e ls evs where "writes evs = []"
    "\<And>v. detailLoop api hdrs repos empty_lists v = (e, ls, emit evs v)"
    using detailLoop_factor by blast
  then show ?thesis by (simp add: detail_events_def)
qed

lemma written_fields [simp]:
  "trace (written c docs w) = trace w @ written_events c docs"
  "integration (written c docs w) = integration w"
  "unreadable (written c docs w) = unreadable w"
  "colls (written c docs w) c' = (if c' = c \<and> docs \<noteq> [] then docs else colls w c')"
  by (simp_all add: written_def)

lemma batchInsert_500: "batchInsert c (Some docs) 500 w = Some (length docs, written c docs w)"
proof (cases "docs = []")
  case True
  then show ?thesis
    by (simp add: batchInsert_def written_def written_events_def emit_def)
next
  case False
  then show ?thesis
    by (simp add: batchInsert_run written_def written_events_def replaced_def)
qed

lemma writeAll_eq:
  "writeAll (length orgs) (length repos) ls uniq w =
     Some (sync_counts orgs repos ls uniq,
           emit [Log_complete (sync_counts orgs repos ls uniq)] (written_lists ls uniq w))"
  by (simp add: writeAll_def batchInsert_500 sync_counts_def written_lists_def)

lemma syncAll_eq:
  "syncAll api hdrs w =
     Some (case fetched api hdrs orgs_url 2000 of
             Inl e \<Rightarrow> (Inl e, emit (fetch_events api hdrs orgs_url 2000) w)
           | Inr orgs \<Rightarrow>
               (case repos_of api hdrs orgs of
                  Inl e \<Rightarrow>
                    (Inl e, emit (repos_events api hdrs orgs)
                              (written ''github-organizations'' orgs
                                (emit (fetch_events api hdrs orgs_url 2000) w)))
                | Inr repos \<Rightarrow>
                    (case detail_error api hdrs repos of
                       Some e \<Rightarrow> (Inl e, gathered_world api hdrs orgs repos w)
                     | None \<Rightarrow>
                         (case uniqueUsers (users (detail_lists api hdrs repos)) of
                            Inl e \<Rightarrow> (Inl e, gathered_world api hdrs orgs repos w)
                          | Inr uniq \<Rightarrow>
                              (Inr (sync_counts orgs repos (detail_lists api hdrs repos) uniq),
                               emit [Log_complete (sync_counts orgs repos (detail_lists api hdrs repos) uniq)]
                                 (written_lists (detail_lists api hdrs repos) uniq
                                    (gathered_world api hdrs orgs repos w)))))))"
  unfolding syncAll_def orgs_url_def [symmetric] empty_lists_def [symmetric]
  by (simp add: fetchAllPages_factor batchInsert_500 reposLoop_eq detailLoop_eq writeAll_eq
      gathered_world_def split: sum.splits option.splits)

subsection \<open>The walk over the repositories, on arrays of objects\<close>

lemma fetchLoop_wellformed:
  "wellformed api hdrs \<Longrightarrow> \<forall>x \<in> set results. \<not> nullish x \<Longrightarrow>
   fst (fetchLoop api url hdrs maxItems delayMs results page w) = Inr xs \<Longrightarrow>
   \<forall>x \<in> set xs. \<not> nullish x"
proof (induction api url hdrs maxItems delayMs results page w rule: fetchLoop.induct)
  case (1 api url hdrs maxItems delayMs results page w)
  show ?case
  proof (cases "api hdrs (page_url url page)")
    case Rejected
    with "1.prems" show ?thesis by (subst (asm) fetchLoop.simps) simp
  next
    case (Response body)
    show ?thesis
    proof (cases body)
      case None
      with Response "1.prems" show ?thesis by (subst (asm) fetchLoop.simps) simp
    next
      case (Some data)
      have data: "\<forall>x \<in> set data. \<not> nullish x"
        using Response Some "1.prems"(1) unfolding wellformed_def by blast
      show ?thesis
      proof (cases "length data \<noteq> 0 \<and> \<not> maxItems \<le> length (results @ data) \<and> \<not> length data < per_page")
        case True
        have "fst (fetchLoop api url hdrs maxItems delayMs (results @ data) (page + 1)
                (emit [Sleep delayMs] (emit [Get (page_url url page) hdrs] w))) = Inr xs"
          using "1.prems"(3) Response Some True by (subst (asm) fetchLoop.simps) simp
        moreover have "\<forall>x \<in> set (results @ data). \<not> nullish x"
          using data "1.prems"(2) by auto
        ultimately show ?thesis
          using "1.IH" [OF Response Some] True "1.prems"(1) by blast
      next
        case False
        then have "xs = results \<or> xs = results @ data"
          using "1.prems"(3) Response Some
          by (subst (asm) fetchLoop.simps) (auto split: if_splits)
        with data "1.prems"(2) show ?thesis by auto
      qed
    qed
  qed
qed

lemma fetched_wellformed:
  assumes "wellformed api hdrs" and "fetched api hdrs url maxItems = Inr xs"
  shows "\<forall>x \<in> set xs. \<not> nullish x"
  using fetchLoop_wellformed [OF assms(1), of "[]" url maxItems 200 1 blank xs] assms(2)
  by (simp add: fetched_def fetchAllPages_def)

lemma getprop_not_nullish: "\<not> nullish v \<Longrightarrow> \<exists>p. getprop v k = Inr p"
  by (cases v) simp_all

lemma extractUser_not_nullish: "\<not> nullish item \<Longrightarrow> \<exists>u. extractUser item = Inr u"
  using getprop_not_nullish [of item "''user''"] getprop_not_nullish [of item "''author''"]
  by (auto simp: extractUser_def)

lemma map_throw_total:
  "\<forall>x \<in> set xs. \<exists>y. f x = Inr y \<Longrightarrow> \<exists>ys. map_throw f xs = Inr ys"
  by (induction xs) auto

lemma extractUsers_not_nullish:
  assumes "\<forall>x \<in> set items. \<not> nullish x"
  shows "extractUsers items = Inr (users_in items)"
proof -
  obtain us where "map_throw extractUser items = Inr us"
    using map_throw_total [of items extractUser] assms extractUser_not_nullish by blast
  then show ?thesis by (simp add: users_in_def extractUsers_def)
qed

lemma pushUsers_not_nullish:
  assumes "\<forall>x \<in> set rc. \<not> nullish x" "\<forall>x \<in> set rp. \<not> nullish x" "\<forall>x \<in> set ri. \<not> nullish x"
  shows "pushUsers rc rp ri ls =
           (None, ls\<lparr>users := users ls @ users_in rc @ users_in rp @ users_in ri\<rparr>)"
  using assms by (simp add: pushUsers_def extractUsers_not_nullish)

lemma timelineLoop_not_nullish:
  assumes "\<not> nullish repo" and "\<forall>x \<in> set iss. \<not> nullish x"
  shows "\<exists>w'. timelineLoop api hdrs baseUrl repo iss ls w =
           (None, ls\<lparr>changelogs := changelogs ls @ concat (map (timeline_of api hdrs baseUrl) iss)\<rparr>, w')"
  using assms(2)
proof (induction iss arbitrary: ls w)
  case Nil
  then show ?case by simp
next
  case (Cons issue rest)
  obtain n where n: "getprop issue ''number'' = Inr n"
    using Cons.prems getprop_not_nullish [of issue] by auto
  obtain nm where nm: "getprop repo ''name'' = Inr nm"
    using assms(1) getprop_not_nullish by blast
  have rest: "\<forall>x \<in> set rest. \<not> nullish x" using Cons.prems by simp
  let ?url = "baseUrl @ ''/issues/'' @ to_string n @ ''/timeline''"
  show ?case
  proof (cases "fetched api hdrs ?url 500")
    case (Inl e)
    obtain w' where "timelineLoop api hdrs baseUrl repo rest ls
         (emit [Warn_timeline (to_string nm) (to_string n)] (emit (fetch_events api hdrs ?url 500) w)) =
         (None, ls\<lparr>changelogs := changelogs ls @ concat (map (timeline_of api hdrs baseUrl) rest)\<rparr>, w')"
      using Cons.IH [OF rest] by blast
    moreover have "timeline_of api hdrs baseUrl issue = []"
      using Inl n by (simp add: timeline_of_def)
    ultimately show ?thesis
      using Inl n nm
      by (simp add: fetchTimeline_def fetchAllPages_factor warnTimeline_def)
  next
    case (Inr timeline)
    obtain w' where "timelineLoop api hdrs baseUrl repo rest (ls\<lparr>changelogs := changelogs ls @ timeline\<rparr>)
         (emit (fetch_events api hdrs ?url 500) w) =
         (None, (ls\<lparr>changelogs := changelogs ls @ timeline\<rparr>)
                  \<lparr>changelogs := changelogs (ls\<lparr>changelogs := changelogs ls @ timeline\<rparr>) @
                     concat (map (timeline_of api hdrs baseUrl) rest)\<rparr>, w')"
      using Cons.IH [OF rest] by blast
    moreover have "timeline_of api hdrs baseUrl issue = timeline"
      using Inr n by (simp add: timeline_of_def)
    ultimately show ?thesis
      using Inr n
      by (simp add: fetchTimeline_def fetchAllPages_factor)
  qed
qed

lemma fetched_details_wellformed:
  assumes "wellformed api hdrs" and "fetched_details api hdrs baseUrl = Inr (rc, rp, ri)"
  shows "(\<forall>x \<in> set rc. \<not> nullish x) \<and> (\<forall>x \<in> set rp. \<not> nullish x) \<and> (\<forall>x \<in> set ri. \<not> nullish x)"
  using assms(2) fetched_wellformed [OF assms(1)]
  by (auto simp: fetched_details_def split: sum.splits)

lemma append_empty_lists [simp]: "append_lists ls empty_lists = ls"
  by (simp add: append_lists_def empty_lists_def)

lemma repoStep_wellformed:
  assumes "wellformed api hdrs" and "\<not> nullish repo"
  shows "\<exists>w'. repoStep api hdrs repo ls w = (None, append_lists ls (repo_lists api hdrs repo), w')"
proof -
  obtain fn where fn: "getprop repo ''full_name'' = Inr fn"
    using assms(2) getprop_not_nullish by blast
  show ?thesis
  proof (cases "repoBaseUrl repo")
    case (Inl e)
    then show ?thesis by (simp add: repoStep_def repoTry_def repo_lists_def fn)
  next
    case (Inr baseUrl)
    show ?thesis
    proof (cases "fetched_details api hdrs baseUrl")
      case (Inl e)
      with Inr show ?thesis
        by (simp add: repoStep_def repoTry_def repo_lists_def fn fetchDetails_factor)
    next
      case got: (Inr triple)
      obtain rc rp ri where t: "triple = (rc, rp, ri)" by (cases triple)
      have nn: "\<forall>x \<in> set rc. \<not> nullish x" "\<forall>x \<in> set rp. \<not> nullish x" "\<forall>x \<in> set ri. \<not> nullish x"
        using fetched_details_wellformed [OF assms(1)] got t by blast+
      let ?ls1 = "ls\<lparr>commits := commits ls @ rc, pulls := pulls ls @ rp, issues := issues ls @ ri\<rparr>"
      obtain w' where tl: "timelineLoop api hdrs baseUrl repo ri ?ls1
            (emit (details_events api hdrs baseUrl) w) =
          (None, ?ls1\<lparr>changelogs := changelogs ?ls1 @ concat (map (timeline_of api hdrs baseUrl) ri)\<rparr>, w')"
        using timelineLoop_not_nullish [OF assms(2) nn(3)] by blast
      show ?thesis
        using Inr got t tl
        by (simp add: repoStep_def repoTry_def repo_lists_def fetchDetails_factor
            pushUsers_not_nullish [OF nn] append_lists_def)
    qed
  qed
qed

lemma append_lists_assoc: "append_lists (append_lists a b) c = append_lists a (append_lists b c)"
  by (simp add: append_lists_def)

lemma gathered_Cons:
  "gathered api hdrs (repo # rest) = append_lists (repo_lists api hdrs repo) (gathered api hdrs rest)"
  by (simp add: gathered_def append_lists_def)

lemma gathered_Nil [simp]: "gathered api hdrs [] = empty_lists"
  by (simp add: gathered_def empty_lists_def)

lemma detailLoop_wellformed:
  assumes "wellformed api hdrs" and "\<forall>repo \<in> set repos. \<not> nullish repo"
  shows "\<exists>w'. detailLoop api hdrs repos ls w = (None, append_lists ls (gathered api hdrs repos), w')"
  using assms(2)
proof (induction repos arbitrary: ls w)
  case Nil
  then show ?case by simp
next
  case (Cons repo rest)
  have nn: "\<not> nullish repo" "\<forall>repo \<in> set rest. \<not> nullish repo" using Cons.prems by simp_all
  obtain w1 where s: "repoStep api hdrs repo ls w = (None, append_lists ls (repo_lists api hdrs repo), w1)"
    using repoStep_wellformed [OF assms(1) nn(1)] by blast
  obtain w2 where "detailLoop api hdrs rest (append_lists ls (repo_lists api hdrs repo)) w1 =
      (None, append_lists (append_lists ls (repo_lists api hdrs repo)) (gathered api hdrs rest), w2)"
    using Cons.IH [OF nn(2)] by blast
  then show ?case
    by (simp add: s gathered_Cons append_lists_assoc)
qed

lemma append_empty_lists_left [simp]: "append_lists empty_lists ls = ls"
  by (simp add: append_lists_def empty_lists_def)

lemma detail_wellformed:
  assumes "wellformed api hdrs" and "\<forall>repo \<in> set repos. \<not> nullish repo"
  shows "detail_error api hdrs repos = None" and "detail_lists api hdrs repos = gathered api hdrs repos"
  using detailLoop_wellformed [OF assms, of empty_lists blank]
  by (auto simp: detail_error_def detail_lists_def)

subsection \<open>The whole handler\<close>

lemma reposLoop_wellformed:
  "wellformed api hdrs \<Longrightarrow> \<forall>x \<in> set acc. \<not> nullish x \<Longrightarrow>
   fst (reposLoop api hdrs orgs acc w) = Inr rs \<Longrightarrow> \<forall>x \<in> set rs. \<not> nullish x"
proof (induction orgs arbitrary: acc w)
  case Nil
  then show ?case by simp
next
  case (Cons org rest)
  from Cons.prems(3) obtain login where login: "getprop org ''login'' = Inr login"
    by (cases "getprop org ''login''") simp_all
  let ?url = "''https://api.github.com/orgs/'' @ to_string login @ ''/repos''"
  from Cons.prems(3) login obtain orgRepos where got: "fetched api hdrs ?url 2000 = Inr orgRepos"
    by (cases "fetched api hdrs ?url 2000") (simp_all add: fetchAllPages_factor)
  have "\<forall>x \<in> set (acc @ orgRepos). \<not> nullish x"
    using Cons.prems(2) fetched_wellformed [OF Cons.prems(1) got] by auto
  moreover have "fst (reposLoop api hdrs rest (acc @ orgRepos)
                        (emit (fetch_events api hdrs ?url 2000) w)) = Inr rs"
    using Cons.prems(3) login got by (simp add: fetchAllPages_factor)
  ultimately show ?case using Cons.IH [OF Cons.prems(1)] by blast
qed

lemma repos_of_wellformed:
  assumes "wellformed api hdrs" and "repos_of api hdrs orgs = Inr repos"
  shows "\<forall>repo \<in> set repos. \<not> nullish repo"
  using reposLoop_wellformed [OF assms(1), of "[]" orgs blank repos] assms(2)
  by (simp add: repos_of_def)

lemma users_in_not_nullish:
  assumes "u \<in> set (users_in items)"
  shows "\<not> nullish u"
proof (cases "extractUsers items")
  case (Inl e)
  with assms show ?thesis by (simp add: users_in_def)
next
  case (Inr us)
  with assms have "u \<in> set us" by (simp add: users_in_def)
  with Inr have "truthy u" by (rule extractUsers_truthy)
  then show ?thesis by (rule truthy_not_nullish)
qed

lemma repo_lists_users_not_nullish: "u \<in> set (users (repo_lists api hdrs repo)) \<Longrightarrow> \<not> nullish u"
  by (auto simp: repo_lists_def empty_lists_def split: sum.splits dest: users_in_not_nullish)

lemma gathered_users_not_nullish: "\<forall>u \<in> set (users (gathered api hdrs repos)). \<not> nullish u"
  by (auto simp: gathered_def dest: repo_lists_users_not_nullish)

lemma uniqueUsers_run:
  "\<forall>u \<in> set us. \<not> nullish u \<Longrightarrow> uniqueUsers us = Inr (map snd (user_entries us))"
  by (simp add: uniqueUsers_def userMap_fold user_entries_def)

lemma resync_wellformed:
  assumes "\<not> unreadable w" and "\<not> no_credential w" and "wellformed api (bearer w)"
    and "fetched api (bearer w) orgs_url 2000 = Inr orgs"
    and "repos_of api (bearer w) orgs = Inr repos"
  shows "resync api w = Some (success_response, final_world api w orgs repos)"
proof -
  have nn: "\<forall>repo \<in> set repos. \<not> nullish repo"
    using repos_of_wellformed [OF assms(3) assms(5)] .
  note d = detail_wellformed [OF assms(3) nn]
  show ?thesis
    using assms(1) assms(2)
    by (simp add: resync_def findOne_def syncAll_eq assms(4) assms(5) d
        uniqueUsers_run [OF gathered_users_not_nullish] final_world_def)
qed

lemma inserted_append [simp]: "inserted c (es @ fs) = inserted c es + inserted c fs"
  by (induction es rule: inserted.induct) simp_all

lemma inserted_no_writes: "writes evs = [] \<Longrightarrow> inserted c evs = 0"
  by (induction evs rule: inserted.induct) (simp_all split: if_splits)

lemma inserted_batches:
  "inserted c (map (InsertMany c') bs) = (if c' = c then length (concat bs) else 0)"
  by (induction bs) simp_all

lemma inserted_written_events:
  "inserted c (written_events c' docs) = (if c' = c then length docs else 0)"
  by (simp add: written_events_def inserted_batches concat_consecutive_batches)

lemma inserted_fetch [simp]:
  "inserted c (fetch_events api hdrs url maxItems) = 0"
  "inserted c (repos_events api hdrs orgs) = 0"
  "inserted c (detail_events api hdrs repos) = 0"
  by (simp_all add: inserted_no_writes)

subsection \<open>The concrete runs\<close>

lemma fetched_one_page:
  assumes "api hdrs (url @ ''?per_page=100&page=1'') = Response (Some xs)"
    and "length xs < 100" and "length xs < maxItems"
  shows "fetched api hdrs url maxItems = Inr xs"
  using assms
  by (simp add: fetched_def fetchAllPages_def fetchLoop.simps page_url_Suc_0 per_page_def)

lemma fetched_rejected:
  assumes "api hdrs (url @ ''?per_page=100&page=1'') = Rejected"
  shows "fetched api hdrs url maxItems = Inl FetchError"
  using assms
  by (simp add: fetched_def fetchAllPages_def fetchLoop.simps page_url_Suc_0)

lemma example_fetched:
  "fetched example_api hdrs ''https://api.github.com/user/orgs'' 2000 = Inr [acme]"
  "fetched example_api hdrs ''https://api.github.com/orgs/acme/repos'' 2000 = Inr [blog, site]"
  "fetched example_api hdrs ''https://api.github.com/repos/acme/blog/commits'' 2000 = Inl FetchError"
  "fetched example_api hdrs ''https://api.github.com/repos/acme/blog/pulls'' 500 =
     Inr [JObj [(''number'', JNum 1), (''user'', person ''dave'' 5)]]"
  "fetched example_api hdrs ''https://api.github.com/repos/acme/blog/issues'' 500 = Inr []"
  "fetched example_api hdrs ''https://api.github.com/repos/acme/site/commits'' 2000 =
     Inr [JObj [(''sha'', JStr ''a''), (''author'', person ''alice'' 1)],
          JObj [(''sha'', JStr ''b''), (''author'', person ''bob'' 2)]]"
  "fetched example_api hdrs ''https://api.github.com/repos/acme/site/pulls'' 500 =
     Inr [JObj [(''number'', JNum 3), (''user'', person ''alice'' 3)]]"
  "fetched example_api hdrs ''https://api.github.com/repos/acme/site/issues'' 500 =
     Inr [JObj [(''number'', JNum 7), (''user'', person ''bob'' 4)],
          JObj [(''number'', JNum 8), (''user'', person ''carol'' 6)]]"
  "fetched example_api hdrs ''https://api.github.com/repos/acme/site/issues/7/timeline'' 500 =
     Inl FetchError"
  "fetched example_api hdrs ''https://api.github.com/repos/acme/site/issues/8/timeline'' 500 =
     Inr [JObj [(''event'', JStr ''labeled'')]]"
  by (rule fetched_one_page fetched_rejected, simp add: example_api_def, (simp; fail)?, (simp; fail)?)+

lemma example_wellformed: "wellformed example_api hdrs"
  by (simp add: wellformed_def example_api_def acme_def site_def blog_def person_def)

lemma example_repos: "repos_of example_api hdrs [acme] = Inr [blog, site]"
  by (simp add: repos_of_def fetchAllPages_factor acme_def example_fetched [unfolded acme_def])

lemma example_gathered:
  "gathered example_api hdrs [blog, site] =
     \<lparr>commits = [JObj [(''sha'', JStr ''a''), (''author'', person ''alice'' 1)],
                 JObj [(''sha'', JStr ''b''), (''author'', person ''bob'' 2)]],
      pulls = [JObj [(''number'', JNum 3), (''user'', person ''alice'' 3)]],
      issues = [JObj [(''number'', JNum 7), (''user'', person ''bob'' 4)],
                JObj [(''number'', JNum 8), (''user'', person ''carol'' 6)]],
      changelogs = [JObj [(''event'', JStr ''labeled'')]],
      users = [person ''alice'' 1, person ''bob'' 2, person ''alice'' 3, person ''bob'' 4,
               person ''carol'' 6]\<rparr>"
  by (simp add: gathered_def repo_lists_def repoBaseUrl_def fetched_details_def timeline_of_def
      users_in_def extractUsers_def extractUser_def empty_lists_def
      blog_def site_def acme_def person_def show_int_def show_nat_digit digit_char_def
      example_fetched [unfolded acme_def blog_def site_def person_def])

lemma example_orgs: "fetched example_api hdrs orgs_url 2000 = Inr [acme]"
  by (simp add: orgs_url_def example_fetched)

lemma example_credential: "\<not> no_credential example_start" "bearer example_start = ''Bearer t''"
  by (simp_all add: no_credential_def bearer_def example_start_def)

lemma example_readable: "\<not> unreadable example_start"
  by (simp add: example_start_def)

lemma example_run:
  "resync example_api example_start =
     Some (success_response, final_world example_api example_start [acme] [blog, site])"
  by (rule resync_wellformed)
     (simp_all add: example_readable example_credential example_wellformed example_orgs
        example_repos)

lemma final_collection_Some [simp]:
  "final_collection c (Some (r, w)) = Some (colls w c)"
  by (simp add: final_collection_def)

subsection \<open>More concrete runs\<close>

lemma no_orgs_run:
  "resync no_orgs_api example_start =
     Some (success_response, final_world no_orgs_api example_start [] [])"
proof (rule resync_wellformed)
  show "fetched no_orgs_api (bearer example_start) orgs_url 2000 = Inr []"
    by (rule fetched_one_page) (simp_all add: no_orgs_api_def)
qed (simp_all add: example_readable example_credential wellformed_def no_orgs_api_def
      repos_of_def)

lemma two_repos_fetched:
  "fetched two_repos_api hdrs ''https://api.github.com/user/orgs'' 2000 = Inr [acme]"
  "fetched two_repos_api hdrs ''https://api.github.com/orgs/acme/repos'' 2000 = Inr [site, blog]"
  "fetched two_repos_api hdrs ''https://api.github.com/repos/acme/site/commits'' 2000 = Inr []"
  "fetched two_repos_api hdrs ''https://api.github.com/repos/acme/site/pulls'' 500 =
     Inr [JObj [(''number'', JNum 3), (''user'', person ''alice'' 1)]]"
  "fetched two_repos_api hdrs ''https://api.github.com/repos/acme/site/issues'' 500 = Inr []"
  "fetched two_repos_api hdrs ''https://api.github.com/repos/acme/blog/commits'' 2000 =
     Inr [JObj [(''sha'', JStr ''c''), (''author'', person ''alice'' 2)]]"
  "fetched two_repos_api hdrs ''https://api.github.com/repos/acme/blog/pulls'' 500 = Inr []"
  "fetched two_repos_api hdrs ''https://api.github.com/repos/acme/blog/issues'' 500 = Inr []"
  by (rule fetched_one_page, simp add: two_repos_api_def, (simp; fail)?, (simp; fail)?)+

lemma two_repos_wellformed: "wellformed two_repos_api hdrs"
  by (simp add: wellformed_def two_repos_api_def acme_def site_def blog_def person_def)

lemma two_repos_repos: "repos_of two_repos_api hdrs [acme] = Inr [site, blog]"
  by (simp add: repos_of_def fetchAllPages_factor acme_def two_repos_fetched [unfolded acme_def])

lemma two_repos_gathered:
  "gathered two_repos_api hdrs [site, blog] =
     \<lparr>commits = [JObj [(''sha'', JStr ''c''), (''author'', person ''alice'' 2)]],
      pulls = [JObj [(''number'', JNum 3), (''user'', person ''alice'' 1)]],
      issues = [], changelogs = [],
      users = [person ''alice'' 1, person ''alice'' 2]\<rparr>"
  by (simp add: gathered_def repo_lists_def repoBaseUrl_def fetched_details_def timeline_of_def
      users_in_def extractUsers_def extractUser_def empty_lists_def
      blog_def site_def acme_def person_def
      two_repos_fetched [unfolded acme_def blog_def site_def person_def])

lemma two_repos_run:
  "resync two_repos_api example_start =
     Some (success_response, final_world two_repos_api example_start [acme] [site, blog])"
  by (rule resync_wellformed)
     (simp_all add: example_readable example_credential two_repos_wellformed two_repos_repos
        orgs_url_def two_repos_fetched)

lemma two_repos_handed:
  "users (detail_lists two_repos_api hdrs [site, blog]) = [person ''alice'' 1, person ''alice'' 2]"
proof -
  have "\<forall>repo \<in> set [site, blog]. \<not> nullish repo"
    by (simp add: site_def blog_def)
  from detail_wellformed(2) [OF two_repos_wellformed this]
  show ?thesis by (simp add: two_repos_gathered)
qed

lemma example_entries:
  "user_entries [person ''alice'' 1, person ''bob'' 2, person ''alice'' 3, person ''bob'' 4,
                 person ''carol'' 6] =
     [(JStr ''alice'', person ''alice'' 3), (JStr ''bob'', person ''bob'' 4),
      (JStr ''carol'', person ''carol'' 6)]"
  by (simp add: user_entries_def login_of_def person_def)

lemma two_repos_entries:
  "user_entries [person ''alice'' 1, person ''alice'' 2] = [(JStr ''alice'', person ''alice'' 2)]"
  by (simp add: user_entries_def login_of_def person_def)

lemma user_entries_Nil: "user_entries [] = []"
  by (simp add: user_entries_def)

lemma example_start_fields: "colls example_start c = []" "trace example_start = []"
  by (simp_all add: example_start_def)

lemma example_handed:
  "users (detail_lists example_api hdrs [blog, site]) =
     [person ''alice'' 1, person ''bob'' 2, person ''alice'' 3, person ''bob'' 4, person ''carol'' 6]"
proof -
  have "\<forall>repo \<in> set [blog, site]. \<not> nullish repo"
    by (simp add: site_def blog_def)
  from detail_wellformed(2) [OF example_wellformed this]
  show ?thesis by (simp add: example_gathered)
qed

subsection \<open>The credential check\<close>

text \<open>
  C9, as the claim has it, fails in its second half. In \<open>example_unreadable\<close> the stored
  document has its access token, so the condition of the claim does not hold, and the store
  rejects the read of the document: the handler answers with the failure object and status
  500, having sent no request and written nothing.
\<close>

theorem resync_unreadable_fails_before_fetching:
  "\<not> no_credential example_unreadable \<and>
   resync example_api example_unreadable =
     Some (\<lparr>status = 500,
            body = JObj [(''success'', JBool False),
                         (''message'', JStr ''Failed to re-sync GitHub data.'')]\<rparr>,
           emit [FindOne, Error_resync] example_unreadable) \<and>
   requests (trace (emit [FindOne, Error_resync] example_unreadable)) = [] \<and>
   writes (trace (emit [FindOne, Error_resync] example_unreadable)) = []"
  by (simp add: resync_def findOne_def failure_response_def example_unreadable_def
      example_start_def no_credential_def)

text \<open>
  C9, amended. When the read of the integration document is answered and the store holds no
  integration document, or one whose access token is absent or empty, \<open>resync\<close> answers at
  once with status 400 and the error \<open>No active GitHub integration found.\<close>; it has read the
  integration document and done nothing else: the trace gains no request and no write, and the
  collections are as they were. When the read is rejected, the handler answers with the
  failure object and status 500, again without a request or a write. In every other state the
  handler sends the request for the first page of the organizations before it answers: the
  missing credential and the rejected read are the only failures that end a run before the
  fetching has begun.
\<close>

theorem resync_credential_check:
  "(\<not> unreadable w \<and> no_credential w \<longrightarrow>
      resync api w = Some (no_integration_response, emit [FindOne] w) \<and>
      requests (trace (emit [FindOne] w)) = requests (trace w) \<and>
      writes (trace (emit [FindOne] w)) = writes (trace w) \<and>
      colls (emit [FindOne] w) = colls w) \<and>
   (unreadable w \<longrightarrow>
      resync api w = Some (failure_response, emit [FindOne, Error_resync] w) \<and>
      requests (trace (emit [FindOne, Error_resync] w)) = requests (trace w) \<and>
      writes (trace (emit [FindOne, Error_resync] w)) = writes (trace w) \<and>
      colls (emit [FindOne, Error_resync] w) = colls w) \<and>
   (\<not> unreadable w \<and> \<not> no_credential w \<longrightarrow>
      (\<exists>r w' evs. resync api w = Some (r, w') \<and> r \<noteq> no_integration_response \<and>
         trace w' = trace w @ [FindOne, Log_starting, Get (page_url orgs_url 1) (bearer w)] @ evs))"
proof (intro conjI impI)
  assume "\<not> unreadable w \<and> \<not> no_credential w"
  then have readable: "\<not> unreadable w" and cred: "\<not> no_credential w" by simp_all
  let ?h = "bearer w"
  obtain first where first: "fetch_events api ?h orgs_url 2000 = Get (page_url orgs_url 1) ?h # first"
    using fetch_events_first by blast
  have "\<exists>p. syncAll api ?h (emit [Log_starting] (emit [FindOne] w)) = Some p"
    by (simp add: syncAll_eq)
  then obtain res w1 where s: "syncAll api ?h (emit [Log_starting] (emit [FindOne] w)) = Some (res, w1)"
    by (metis surj_pair)
  have "\<exists>evs. trace w1 = trace w @ [FindOne, Log_starting] @ fetch_events api ?h orgs_url 2000 @ evs"
    using s
    by (auto simp: syncAll_eq gathered_world_def written_lists_def split: sum.splits option.splits)
  then obtain evs where evs: "trace w1 = trace w @ [FindOne, Log_starting, Get (page_url orgs_url 1) ?h] @ first @ evs"
    using first by auto
  show "\<exists>r w' evs. resync api w = Some (r, w') \<and> r \<noteq> no_integration_response \<and>
         trace w' = trace w @ [FindOne, Log_starting, Get (page_url orgs_url 1) (bearer w)] @ evs"
  proof (cases res)
    case (Inl e)
    then have "resync api w = Some (failure_response, emit [Error_resync] w1)"
      using s readable cred by (simp add: resync_def findOne_def)
    moreover have "failure_response \<noteq> no_integration_response"
      by (simp add: failure_response_def no_integration_response_def)
    moreover have "trace (emit [Error_resync] w1) =
        trace w @ [FindOne, Log_starting, Get (page_url orgs_url 1) ?h] @ (first @ evs @ [Error_resync])"
      using evs by simp
    ultimately show ?thesis by blast
  next
    case (Inr cnts)
    then have "resync api w = Some (success_response, w1)"
      using s readable cred by (simp add: resync_def findOne_def)
    moreover have "success_response \<noteq> no_integration_response"
      by (simp add: success_response_def no_integration_response_def)
    ultimately show ?thesis using evs by blast
  qed
qed (simp_all add: resync_def findOne_def)

theorem resync_credential_check_witness:
  "resync example_api example_world = Some (no_integration_response, emit [FindOne] example_world) \<and>
   resync example_api example_tokenless =
     Some (no_integration_response, emit [FindOne] example_tokenless) \<and>
   resync example_api example_unreadable =
     Some (failure_response, emit [FindOne, Error_resync] example_unreadable) \<and>
   (\<exists>r w' evs. resync example_api example_start = Some (r, w') \<and> r \<noteq> no_integration_response \<and>
      trace w' = [FindOne, Log_starting,
                  Get ''https://api.github.com/user/orgs?per_page=100&page=1'' ''Bearer t''] @ evs)"
proof -
  have none: "\<not> unreadable example_world" "no_credential example_world"
    by (simp_all add: no_credential_def example_world_def)
  have tokenless: "\<not> unreadable example_tokenless" "no_credential example_tokenless"
    by (simp_all add: no_credential_def example_tokenless_def)
  have rejected: "unreadable example_unreadable"
    by (simp add: example_unreadable_def)
  have start: "trace example_start = []"
    by (simp add: example_start_def)
  from resync_credential_check [of example_world example_api]
       resync_credential_check [of example_tokenless example_api]
       resync_credential_check [of example_unreadable example_api]
       resync_credential_check [of example_start example_api]
  show ?thesis
    by (simp add: none tokenless rejected example_readable example_credential start orgs_url_def
        page_url_Suc_0)
qed

subsection \<open>What the handler answers\<close>

text \<open>
  C1, as the claim has it, fails. The run over \<open>example_api\<close> inserts 1 organization,
  2 repositories, 2 commits, 1 pull, 2 issues, 1 timeline event and 3 users, and the run over
  \<open>no_orgs_api\<close> inserts nothing; the handler answers both runs with the same object of a
  success flag and a message, in which there is no count.
\<close>

theorem resync_response_has_no_counts:
  "map_option fst (resync example_api example_start) =
     Some \<lparr>status = 200,
           body = JObj [(''success'', JBool True),
                        (''message'', JStr ''GitHub data re-synced successfully.'')]\<rparr> \<and>
   map_option (inserted ''github-organizations'' \<circ> trace \<circ> snd) (resync example_api example_start) = Some 1 \<and>
   map_option (inserted ''github-repositories'' \<circ> trace \<circ> snd) (resync example_api example_start) = Some 2 \<and>
   map_option (inserted ''github-commits'' \<circ> trace \<circ> snd) (resync example_api example_start) = Some 2 \<and>
   map_option (inserted ''github-pulls'' \<circ> trace \<circ> snd) (resync example_api example_start) = Some 1 \<and>
   map_option (inserted ''github-issues'' \<circ> trace \<circ> snd) (resync example_api example_start) = Some 2 \<and>
   map_option (inserted ''github-issue-changelogs'' \<circ> trace \<circ> snd) (resync example_api example_start) = Some 1 \<and>
   map_option (inserted ''github-users'' \<circ> trace \<circ> snd) (resync example_api example_start) = Some 3 \<and>
   map_option fst (resync no_orgs_api example_start) =
     Some \<lparr>status = 200,
           body = JObj [(''success'', JBool True),
                        (''message'', JStr ''GitHub data re-synced successfully.'')]\<rparr> \<and>
   map_option (inserted ''github-organizations'' \<circ> trace \<circ> snd) (resync no_orgs_api example_start) = Some 0 \<and>
   map_option (inserted ''github-repositories'' \<circ> trace \<circ> snd) (resync no_orgs_api example_start) = Some 0 \<and>
   map_option (inserted ''github-commits'' \<circ> trace \<circ> snd) (resync no_orgs_api example_start) = Some 0 \<and>
   map_option (inserted ''github-pulls'' \<circ> trace \<circ> snd) (resync no_orgs_api example_start) = Some 0 \<and>
   map_option (inserted ''github-issues'' \<circ> trace \<circ> snd) (resync no_orgs_api example_start) = Some 0 \<and>
   map_option (inserted ''github-issue-changelogs'' \<circ> trace \<circ> snd) (resync no_orgs_api example_start) = Some 0 \<and>
   map_option (inserted ''github-users'' \<circ> trace \<circ> snd) (resync no_orgs_api example_start) = Some 0"
  by (simp add: example_run no_orgs_run final_world_def success_response_def
      written_lists_def gathered_world_def inserted_written_events
      example_credential example_gathered example_entries example_start_fields
      empty_lists_def user_entries_Nil acme_def)

text \<open>
  C1, amended. A run that answers with status 200 answers with the fixed object
  \<open>{success: true, message: 'GitHub data re-synced successfully.'}\<close>, a success flag with
  a message. The counts per resource type are not in the answer: the run logs them, and each of
  the logged counts is the number of documents that the run has inserted into the collection
  of that resource type.
\<close>

theorem resync_success_response:
  assumes "resync api w = Some (r, w')" and "status r = 200"
  shows "r = success_response \<and>
         (\<exists>cnts evs. trace w' = trace w @ evs \<and> Log_complete cnts \<in> set evs \<and>
            inserted ''github-organizations'' evs = orgCount cnts \<and>
            inserted ''github-repositories'' evs = repoCount cnts \<and>
            inserted ''github-commits'' evs = commitCount cnts \<and>
            inserted ''github-pulls'' evs = pullCount cnts \<and>
            inserted ''github-issues'' evs = issueCount cnts \<and>
            inserted ''github-issue-changelogs'' evs = changelogCount cnts \<and>
            inserted ''github-users'' evs = userCount cnts)"
proof -
  let ?h = "bearer w"
  have readable: "\<not> unreadable w"
    using assms by (auto simp: resync_def findOne_def failure_response_def)
  have cred: "\<not> no_credential w"
    using assms readable by (auto simp: resync_def findOne_def no_integration_response_def)
  obtain orgs where orgs: "fetched api ?h orgs_url 2000 = Inr orgs"
    using assms readable cred
    by (cases "fetched api ?h orgs_url 2000")
       (auto simp: resync_def findOne_def syncAll_eq failure_response_def)
  obtain repos where repos: "repos_of api ?h orgs = Inr repos"
    using assms readable cred orgs
    by (cases "repos_of api ?h orgs")
       (auto simp: resync_def findOne_def syncAll_eq failure_response_def)
  have de: "detail_error api ?h repos = None"
    using assms readable cred orgs repos
    by (cases "detail_error api ?h repos")
       (auto simp: resync_def findOne_def syncAll_eq failure_response_def)
  let ?ls = "detail_lists api ?h repos"
  obtain uniq where uniq: "uniqueUsers (users ?ls) = Inr uniq"
    using assms readable cred orgs repos de
    by (cases "uniqueUsers (users ?ls)")
       (auto simp: resync_def findOne_def syncAll_eq failure_response_def)
  let ?cnts = "sync_counts orgs repos ?ls uniq"
  let ?evs = "[FindOne, Log_starting] @ fetch_events api ?h orgs_url 2000 @
      written_events ''github-organizations'' orgs @ repos_events api ?h orgs @
      written_events ''github-repositories'' repos @ detail_events api ?h repos @
      written_events ''github-commits'' (commits ?ls) @ written_events ''github-pulls'' (pulls ?ls) @
      written_events ''github-issues'' (issues ?ls) @
      written_events ''github-issue-changelogs'' (changelogs ?ls) @
      written_events ''github-users'' uniq @ [Log_complete ?cnts]"
  have run: "r = success_response"
    "w' = emit [Log_complete ?cnts] (written_lists ?ls uniq
             (gathered_world api ?h orgs repos (emit [FindOne, Log_starting] w)))"
    using assms(1) readable cred orgs repos de uniq
    by (simp_all add: resync_def findOne_def syncAll_eq)
  have tr: "trace w' = trace w @ ?evs"
    unfolding run(2) by (simp add: written_lists_def gathered_world_def)
  have logged: "Log_complete ?cnts \<in> set ?evs"
    by simp
  have "inserted ''github-organizations'' ?evs = orgCount ?cnts"
    "inserted ''github-repositories'' ?evs = repoCount ?cnts"
    "inserted ''github-commits'' ?evs = commitCount ?cnts"
    "inserted ''github-pulls'' ?evs = pullCount ?cnts"
    "inserted ''github-issues'' ?evs = issueCount ?cnts"
    "inserted ''github-issue-changelogs'' ?evs = changelogCount ?cnts"
    "inserted ''github-users'' ?evs = userCount ?cnts"
    by (simp_all add: inserted_written_events sync_counts_def)
  with run(1) tr logged show ?thesis by blast
qed

theorem resync_success_response_witness:
  "\<exists>cnts evs. trace (final_world example_api example_start [acme] [blog, site]) = evs \<and>
      Log_complete cnts \<in> set evs \<and>
      inserted ''github-commits'' evs = commitCount cnts \<and> commitCount cnts = 2 \<and>
      inserted ''github-users'' evs = userCount cnts \<and> userCount cnts = 3"
proof -
  have ok: "status success_response = 200"
    by (simp add: success_response_def)
  from resync_success_response [OF example_run ok]
  obtain cnts evs where
    tr: "trace (final_world example_api example_start [acme] [blog, site]) =
           trace example_start @ evs"
    and l: "Log_complete cnts \<in> set evs"
    and c: "inserted ''github-commits'' evs = commitCount cnts"
    and u: "inserted ''github-users'' evs = userCount cnts"
    by blast
  have evs: "evs = trace (final_world example_api example_start [acme] [blog, site])"
    using tr by (simp add: example_start_fields)
  have "inserted ''github-commits'' (trace (final_world example_api example_start [acme] [blog, site])) = 2"
    "inserted ''github-users'' (trace (final_world example_api example_start [acme] [blog, site])) = 3"
    by (simp_all add: final_world_def written_lists_def gathered_world_def inserted_written_events
        example_credential example_gathered example_entries example_start_fields)
  with evs l c u show ?thesis by auto
qed

subsection \<open>The users handed to the deduplication\<close>

text \<open>
  C2, as the claim has it, fails. In the run over \<open>two_repos_api\<close> the commits collection
  holds the commit of \<open>blog\<close> and the pulls collection the pull of \<open>site\<close>. The extractor on
  all commits, then on all pulls, then on all issues gives the record 2 of \<open>alice\<close> before her
  record 1, of which the deduplication would keep record 1. The handler hands over record 1
  before record 2, and the users collection holds record 2.
\<close>

theorem resync_users_not_by_resource_type:
  "final_collection ''github-commits'' (resync two_repos_api example_start) =
     Some [JObj [(''sha'', JStr ''c''), (''author'', person ''alice'' 2)]] \<and>
   final_collection ''github-pulls'' (resync two_repos_api example_start) =
     Some [JObj [(''number'', JNum 3), (''user'', person ''alice'' 1)]] \<and>
   final_collection ''github-issues'' (resync two_repos_api example_start) = Some [] \<and>
   extractUsers [JObj [(''sha'', JStr ''c''), (''author'', person ''alice'' 2)]] =
     Inr [person ''alice'' 2] \<and>
   extractUsers [JObj [(''number'', JNum 3), (''user'', person ''alice'' 1)]] =
     Inr [person ''alice'' 1] \<and>
   extractUsers [] = Inr [] \<and>
   users (detail_lists two_repos_api ''Bearer t'' [site, blog]) =
     [person ''alice'' 1, person ''alice'' 2] \<and>
   users (detail_lists two_repos_api ''Bearer t'' [site, blog]) \<noteq>
     [person ''alice'' 2] @ [person ''alice'' 1] @ [] \<and>
   uniqueUsers ([person ''alice'' 2] @ [person ''alice'' 1] @ []) = Inr [person ''alice'' 1] \<and>
   final_collection ''github-users'' (resync two_repos_api example_start) =
     Some [person ''alice'' 2]"
proof -
  have stored:
    "final_collection ''github-commits'' (resync two_repos_api example_start) =
       Some [JObj [(''sha'', JStr ''c''), (''author'', person ''alice'' 2)]]"
    "final_collection ''github-pulls'' (resync two_repos_api example_start) =
       Some [JObj [(''number'', JNum 3), (''user'', person ''alice'' 1)]]"
    "final_collection ''github-issues'' (resync two_repos_api example_start) = Some []"
    "final_collection ''github-users'' (resync two_repos_api example_start) =
       Some [person ''alice'' 2]"
    by (simp_all add: two_repos_run final_world_def written_lists_def gathered_world_def
        example_credential two_repos_gathered two_repos_entries example_start_fields)
  have extracted:
    "extractUsers [JObj [(''sha'', JStr ''c''), (''author'', person ''alice'' 2)]] =
       Inr [person ''alice'' 2]"
    "extractUsers [JObj [(''number'', JNum 3), (''user'', person ''alice'' 1)]] =
       Inr [person ''alice'' 1]"
    "extractUsers [] = Inr []"
    by (simp_all add: extractUsers_def extractUser_def person_def)
  have claimed: "uniqueUsers ([person ''alice'' 2] @ [person ''alice'' 1] @ []) =
      Inr [person ''alice'' 1]"
    by (simp add: uniqueUsers_def person_def)
  have differ: "users (detail_lists two_repos_api ''Bearer t'' [site, blog]) \<noteq>
      [person ''alice'' 2] @ [person ''alice'' 1] @ []"
    by (simp add: two_repos_handed person_def)
  from stored extracted claimed differ two_repos_handed [of "''Bearer t''"]
  show ?thesis by simp
qed

text \<open>
  C2, amended. In a run in which the integration document is read and has a token, the
  organizations and their repositories are fetched and the arrays of the API hold objects, the user records handed to the
  deduplication are the concatenation, repository after repository in the order of the walk,
  of what the extractor gives on the commits of the repository, then on its pulls, then on its
  issues; each repository adds its part inside the loop, and a repository of which one of the
  three fetches is rejected adds nothing. The deduplication of that sequence is what the users
  collection holds afterwards (the collection is left as it was when the result is empty), so
  the record that survives for a login is the last one in that order.
\<close>

theorem resync_users_per_repository:
  assumes "\<not> unreadable w" and "\<not> no_credential w" and "wellformed api (bearer w)"
    and "fetched api (bearer w) orgs_url 2000 = Inr orgs"
    and "repos_of api (bearer w) orgs = Inr repos"
  shows "\<exists>w' uniq. resync api w = Some (success_response, w') \<and>
           users (detail_lists api (bearer w) repos) =
             concat (map (users \<circ> repo_lists api (bearer w)) repos) \<and>
           uniqueUsers (users (detail_lists api (bearer w) repos)) = Inr uniq \<and>
           colls w' ''github-users'' = (if uniq = [] then colls w ''github-users'' else uniq) \<and>
           (\<forall>repo \<in> set repos. \<forall>baseUrl. repoBaseUrl repo = Inr baseUrl \<longrightarrow>
              (fetched_details api (bearer w) baseUrl = Inl FetchError \<longrightarrow>
                 users (repo_lists api (bearer w) repo) = []) \<and>
              (\<forall>rc rp ri. fetched_details api (bearer w) baseUrl = Inr (rc, rp, ri) \<longrightarrow>
                 extractUsers rc = Inr (users_in rc) \<and> extractUsers rp = Inr (users_in rp) \<and>
                 extractUsers ri = Inr (users_in ri) \<and>
                 users (repo_lists api (bearer w) repo) = users_in rc @ users_in rp @ users_in ri))"
proof -
  let ?us = "users (gathered api (bearer w) repos)"
  have run: "resync api w = Some (success_response, final_world api w orgs repos)"
    using assms by (rule resync_wellformed)
  have nn: "\<forall>repo \<in> set repos. \<not> nullish repo"
    using repos_of_wellformed [OF assms(3) assms(5)] .
  have handed: "users (detail_lists api (bearer w) repos) =
      concat (map (users \<circ> repo_lists api (bearer w)) repos)"
    by (simp add: detail_wellformed(2) [OF assms(3) nn] gathered_def)
  have uniq: "uniqueUsers (users (detail_lists api (bearer w) repos)) = Inr (map snd (user_entries ?us))"
    by (simp add: detail_wellformed(2) [OF assms(3) nn] uniqueUsers_run [OF gathered_users_not_nullish])
  have stored: "colls (final_world api w orgs repos) ''github-users'' =
      (if map snd (user_entries ?us) = [] then colls w ''github-users'' else map snd (user_entries ?us))"
    by (simp add: final_world_def written_lists_def gathered_world_def)
  have per_repo: "\<forall>repo \<in> set repos. \<forall>baseUrl. repoBaseUrl repo = Inr baseUrl \<longrightarrow>
              (fetched_details api (bearer w) baseUrl = Inl FetchError \<longrightarrow>
                 users (repo_lists api (bearer w) repo) = []) \<and>
              (\<forall>rc rp ri. fetched_details api (bearer w) baseUrl = Inr (rc, rp, ri) \<longrightarrow>
                 extractUsers rc = Inr (users_in rc) \<and> extractUsers rp = Inr (users_in rp) \<and>
                 extractUsers ri = Inr (users_in ri) \<and>
                 users (repo_lists api (bearer w) repo) = users_in rc @ users_in rp @ users_in ri)"
  proof (intro ballI allI impI conjI)
    fix repo baseUrl rc rp ri
    assume "fetched_details api (bearer w) baseUrl = Inr (rc, rp, ri)"
    from fetched_details_wellformed [OF assms(3) this]
    show "extractUsers rc = Inr (users_in rc)" "extractUsers rp = Inr (users_in rp)"
      "extractUsers ri = Inr (users_in ri)"
      by (simp_all add: extractUsers_not_nullish)
  qed (simp_all add: repo_lists_def empty_lists_def)
  from run handed uniq stored per_repo show ?thesis by blast
qed

theorem resync_users_per_repository_witness:
  "users (detail_lists example_api ''Bearer t'' [blog, site]) =
     [person ''alice'' 1, person ''bob'' 2, person ''alice'' 3, person ''bob'' 4, person ''carol'' 6] \<and>
   final_collection ''github-users'' (resync example_api example_start) =
     Some [person ''alice'' 3, person ''bob'' 4, person ''carol'' 6]"
proof -
  from resync_users_per_repository
    [OF example_readable example_credential(1) example_wellformed example_orgs example_repos]
  obtain w' uniq where
    run: "resync example_api example_start = Some (success_response, w')"
    and u: "uniqueUsers (users (detail_lists example_api (bearer example_start) [blog, site])) = Inr uniq"
    and st: "colls w' ''github-users'' =
               (if uniq = [] then colls example_start ''github-users'' else uniq)"
    by blast
  have "uniqueUsers (users (detail_lists example_api (bearer example_start) [blog, site])) =
      Inr [person ''alice'' 3, person ''bob'' 4, person ''carol'' 6]"
    by (simp add: example_handed uniqueUsers_def login_of_def person_def)
  with u have "uniq = [person ''alice'' 3, person ''bob'' 4, person ''carol'' 6]" by simp
  with run st show ?thesis by (simp add: example_handed)
qed

subsection \<open>Failures of single fetches\<close>

text \<open>
  C8. Take a run in which the integration document is read and has a token, the
  organizations and their repositories are fetched and the arrays of the API hold objects;
  any of the fetches of commits, pulls, issues and timelines may be rejected. The run answers
  with the success object. The commits, pulls, issues and timeline events it writes are those
  of \<open>gathered\<close>, and the users it writes are the deduplicated users of \<open>gathered\<close>: every
  repository adds its own, a repository for which one of the three fetches is rejected
  adds nothing and the walk goes on, and within a repository every issue adds its timeline,
  an issue whose timeline fetch is rejected adding nothing. (A collection is left as it was
  when there is nothing to write to it.)
\<close>

theorem resync_isolates_fetch_failures:
  assumes "\<not> unreadable w" and "\<not> no_credential w" and "wellformed api (bearer w)"
    and "fetched api (bearer w) orgs_url 2000 = Inr orgs"
    and "repos_of api (bearer w) orgs = Inr repos"
  shows "\<exists>w' uniq. resync api w = Some (success_response, w') \<and>
           uniqueUsers (users (gathered api (bearer w) repos)) = Inr uniq \<and>
           colls w' ''github-users'' = (if uniq = [] then colls w ''github-users'' else uniq) \<and>
           colls w' ''github-commits'' =
             (if commits (gathered api (bearer w) repos) = [] then colls w ''github-commits''
              else commits (gathered api (bearer w) repos)) \<and>
           colls w' ''github-pulls'' =
             (if pulls (gathered api (bearer w) repos) = [] then colls w ''github-pulls''
              else pulls (gathered api (bearer w) repos)) \<and>
           colls w' ''github-issues'' =
             (if issues (gathered api (bearer w) repos) = [] then colls w ''github-issues''
              else issues (gathered api (bearer w) repos)) \<and>
           colls w' ''github-issue-changelogs'' =
             (if changelogs (gathered api (bearer w) repos) = [] then colls w ''github-issue-changelogs''
              else changelogs (gathered api (bearer w) repos)) \<and>
           (\<forall>repo \<in> set repos. \<forall>baseUrl. repoBaseUrl repo = Inr baseUrl \<longrightarrow>
              (fetched_details api (bearer w) baseUrl = Inl FetchError \<longrightarrow>
                 repo_lists api (bearer w) repo = empty_lists) \<and>
              (\<forall>rc rp ri. fetched_details api (bearer w) baseUrl = Inr (rc, rp, ri) \<longrightarrow>
                 commits (repo_lists api (bearer w) repo) = rc \<and>
                 pulls (repo_lists api (bearer w) repo) = rp \<and>
                 issues (repo_lists api (bearer w) repo) = ri \<and>
                 changelogs (repo_lists api (bearer w) repo) =
                   concat (map (timeline_of api (bearer w) baseUrl) ri) \<and>
                 users (repo_lists api (bearer w) repo) =
                   users_in rc @ users_in rp @ users_in ri)) \<and>
           (\<forall>baseUrl issue n. getprop issue ''number'' = Inr n \<longrightarrow>
              (fetched api (bearer w) (baseUrl @ ''/issues/'' @ to_string n @ ''/timeline'') 500
                 = Inl FetchError \<longrightarrow> timeline_of api (bearer w) baseUrl issue = []) \<and>
              (\<forall>timeline. fetched api (bearer w) (baseUrl @ ''/issues/'' @ to_string n @ ''/timeline'') 500
                 = Inr timeline \<longrightarrow> timeline_of api (bearer w) baseUrl issue = timeline))"
proof -
  have run: "resync api w = Some (success_response, final_world api w orgs repos)"
    using assms by (rule resync_wellformed)
  have stored:
    "colls (final_world api w orgs repos) ''github-commits'' =
       (if commits (gathered api (bearer w) repos) = [] then colls w ''github-commits''
        else commits (gathered api (bearer w) repos))"
    "colls (final_world api w orgs repos) ''github-pulls'' =
       (if pulls (gathered api (bearer w) repos) = [] then colls w ''github-pulls''
        else pulls (gathered api (bearer w) repos))"
    "colls (final_world api w orgs repos) ''github-issues'' =
       (if issues (gathered api (bearer w) repos) = [] then colls w ''github-issues''
        else issues (gathered api (bearer w) repos))"
    "colls (final_world api w orgs repos) ''github-issue-changelogs'' =
       (if changelogs (gathered api (bearer w) repos) = [] then colls w ''github-issue-changelogs''
        else changelogs (gathered api (bearer w) repos))"
    by (simp_all add: final_world_def written_lists_def gathered_world_def)
  let ?uniq = "map snd (user_entries (users (gathered api (bearer w) repos)))"
  have uniq: "uniqueUsers (users (gathered api (bearer w) repos)) = Inr ?uniq"
    by (rule uniqueUsers_run [OF gathered_users_not_nullish])
  have stored_users: "colls (final_world api w orgs repos) ''github-users'' =
      (if ?uniq = [] then colls w ''github-users'' else ?uniq)"
    by (simp add: final_world_def written_lists_def gathered_world_def)
  have per_repo: "\<forall>repo \<in> set repos. \<forall>baseUrl. repoBaseUrl repo = Inr baseUrl \<longrightarrow>
              (fetched_details api (bearer w) baseUrl = Inl FetchError \<longrightarrow>
                 repo_lists api (bearer w) repo = empty_lists) \<and>
              (\<forall>rc rp ri. fetched_details api (bearer w) baseUrl = Inr (rc, rp, ri) \<longrightarrow>
                 commits (repo_lists api (bearer w) repo) = rc \<and>
                 pulls (repo_lists api (bearer w) repo) = rp \<and>
                 issues (repo_lists api (bearer w) repo) = ri \<and>
                 changelogs (repo_lists api (bearer w) repo) =
                   concat (map (timeline_of api (bearer w) baseUrl) ri) \<and>
                 users (repo_lists api (bearer w) repo) =
                   users_in rc @ users_in rp @ users_in ri)"
    by (simp add: repo_lists_def)
  have per_issue: "\<forall>baseUrl issue n. getprop issue ''number'' = Inr n \<longrightarrow>
              (fetched api (bearer w) (baseUrl @ ''/issues/'' @ to_string n @ ''/timeline'') 500
                 = Inl FetchError \<longrightarrow> timeline_of api (bearer w) baseUrl issue = []) \<and>
              (\<forall>timeline. fetched api (bearer w) (baseUrl @ ''/issues/'' @ to_string n @ ''/timeline'') 500
                 = Inr timeline \<longrightarrow> timeline_of api (bearer w) baseUrl issue = timeline)"
    by (simp add: timeline_of_def)
  from run uniq stored_users stored per_repo per_issue show ?thesis by blast
qed

theorem resync_isolates_fetch_failures_witness:
  "map_option fst (resync example_api example_start) = Some success_response \<and>
   final_collection ''github-commits'' (resync example_api example_start) =
     Some [JObj [(''sha'', JStr ''a''), (''author'', person ''alice'' 1)],
           JObj [(''sha'', JStr ''b''), (''author'', person ''bob'' 2)]] \<and>
   final_collection ''github-pulls'' (resync example_api example_start) =
     Some [JObj [(''number'', JNum 3), (''user'', person ''alice'' 3)]] \<and>
   final_collection ''github-issues'' (resync example_api example_start) =
     Some [JObj [(''number'', JNum 7), (''user'', person ''bob'' 4)],
           JObj [(''number'', JNum 8), (''user'', person ''carol'' 6)]] \<and>
   final_collection ''github-issue-changelogs'' (resync example_api example_start) =
     Some [JObj [(''event'', JStr ''labeled'')]] \<and>
   final_collection ''github-users'' (resync example_api example_start) =
     Some [person ''alice'' 3, person ''bob'' 4, person ''carol'' 6]"
proof -
  from resync_isolates_fetch_failures
    [OF example_readable example_credential(1) example_wellformed example_orgs example_repos]
  obtain w' uniq where
    "resync example_api example_start = Some (success_response, w')"
    "uniqueUsers (users (gathered example_api (bearer example_start) [blog, site])) = Inr uniq"
    "colls w' ''github-users'' =
       (if uniq = [] then colls example_start ''github-users'' else uniq)"
    "colls w' ''github-commits'' =
       (if commits (gathered example_api (bearer example_start) [blog, site]) = []
        then colls example_start ''github-commits''
        else commits (gathered example_api (bearer example_start) [blog, site]))"
    "colls w' ''github-pulls'' =
       (if pulls (gathered example_api (bearer example_start) [blog, site]) = []
        then colls example_start ''github-pulls''
        else pulls (gathered example_api (bearer example_start) [blog, site]))"
    "colls w' ''github-issues'' =
       (if issues (gathered example_api (bearer example_start) [blog, site]) = []
        then colls example_start ''github-issues''
        else issues (gathered example_api (bearer example_start) [blog, site]))"
    "colls w' ''github-issue-changelogs'' =
       (if changelogs (gathered example_api (bearer example_start) [blog, site]) = []
        then colls example_start ''github-issue-changelogs''
        else changelogs (gathered example_api (bearer example_start) [blog, site]))"
    by blast
  then show ?thesis
    by (auto simp: example_gathered uniqueUsers_def login_of_def person_def)
qed

end
